theory Spec2Isabelle
  imports Complex_Main "HOL-Library.Word" "HOL-Library.Log_Nat"
begin

section \<open>JavaScript numbers\<close>

text \<open>
  A JavaScript \<open>number\<close> that is read as a measurement (an audio sample, a video
  duration) is either finite or one of the three special values. Finite values are kept as
  exact rationals: every IEEE value is a dyadic rational, and the only arithmetic done on
  samples below is a multiplication by a power of two, which is exact.
\<close>

datatype jsnum = Num rat | NaN | PosInf | NegInf

text \<open>\<open>x * c\<close> for a finite positive constant \<open>c\<close>.\<close>

fun js_scale :: "jsnum \<Rightarrow> rat \<Rightarrow> jsnum" where
  "js_scale (Num x) c = Num (x * c)"
| "js_scale NaN c = NaN"
| "js_scale PosInf c = PosInf"
| "js_scale NegInf c = NegInf"

text \<open>Rounding towards zero, the first step of ECMAScript's integer conversions.\<close>

definition js_trunc :: "rat \<Rightarrow> int" where
  "js_trunc x = (if x < 0 then \<lceil>x\<rceil> else \<lfloor>x\<rfloor>)"

text \<open>
  ECMAScript \<open>ToInt16\<close>, applied when a number is stored into an \<open>Int16Array\<close>:
  non-finite values become 0, finite ones are truncated and reduced modulo \<open>2 ^ 16\<close>.
\<close>

fun ToInt16 :: "jsnum \<Rightarrow> 16 word" where
  "ToInt16 (Num x) = word_of_int (js_trunc x)"
| "ToInt16 NaN = 0"
| "ToInt16 PosInf = 0"
| "ToInt16 NegInf = 0"

section \<open>Live agent: float samples to 16-bit PCM\<close>

text \<open>
  \<open>createBlob\<close> fills an \<open>Int16Array\<close> of the input's length with
  \<open>data[i] * 32768\<close>. \<open>createBlob_int16\<close> is that array; the blob's payload is the
  base64 text of its bytes.
\<close>

definition pcm16_sample :: "jsnum \<Rightarrow> 16 word" where
  "pcm16_sample s = ToInt16 (js_scale s 32768)"

definition createBlob_int16 :: "jsnum list \<Rightarrow> 16 word list" where
  "createBlob_int16 data = map pcm16_sample data"

section \<open>User profiles, the document store and local storage\<close>

text \<open>
  \<open>UserProfile\<close> is the interface of \<open>App.tsx\<close>; an optional field
  (\<open>coins?\<close>, \<open>isPremium?\<close>) is \<open>None\<close> when it is \<open>undefined\<close>, a nullable
  string is \<open>None\<close> when it is \<open>null\<close>. Coin balances are integers.
\<close>

record UserProfile =
  uid :: string
  displayName :: "string option"
  email :: "string option"
  photoURL :: "string option"
  coins :: "int option"
  isGuest :: bool
  isPremium :: "bool option"

text \<open>The identity reported by the identity provider (\<open>currentUser\<close>).\<close>

record AuthUser =
  au_uid :: string
  au_displayName :: "string option"
  au_email :: "string option"
  au_photoURL :: "string option"

text \<open>
  A document of the \<open>users\<close> collection. A field that the document does not have is
  \<open>None\<close>; \<open>lastLogin\<close> is a timestamp.
\<close>

record UserDoc =
  doc_displayName :: "string option"
  doc_email :: "string option"
  doc_photoURL :: "string option"
  doc_lastLogin :: "nat option"
  doc_coins :: "int option"
  doc_isPremium :: "bool option"

type_synonym users_collection = "string \<rightharpoonup> UserDoc"

datatype error =
    RemoteError
  | GenerationError
  | LoadError
  | InvalidDuration
  | TimeError
  | SeekError
  | CaptureError

text \<open>
  The field writes that the application passes to \<open>updateDoc\<close>:
  plain values and \<open>increment(n)\<close> on \<open>coins\<close>. An increment of a field that is
  absent starts from 0.
\<close>

datatype field_write =
    SetLastLogin nat
  | SetCoins int
  | IncrementCoins int
  | SetIsPremium bool

fun apply_write :: "UserDoc \<Rightarrow> field_write \<Rightarrow> UserDoc" where
  "apply_write d (SetLastLogin t) = d\<lparr>doc_lastLogin := Some t\<rparr>"
| "apply_write d (SetCoins c) = d\<lparr>doc_coins := Some c\<rparr>"
| "apply_write d (IncrementCoins n) =
     d\<lparr>doc_coins := Some ((case doc_coins d of None \<Rightarrow> 0 | Some c \<Rightarrow> c) + n)\<rparr>"
| "apply_write d (SetIsPremium b) = d\<lparr>doc_isPremium := Some b\<rparr>"

text \<open>
  The three store operations. Each takes a flag saying whether this call fails (network,
  permission); \<open>updateDoc\<close> is also rejected when the document does not exist. A rejected
  call leaves the collection as it was.
\<close>

definition getDoc :: "bool \<Rightarrow> users_collection \<Rightarrow> string \<Rightarrow> error + UserDoc option" where
  "getDoc fail db k = (if fail then Inl RemoteError else Inr (db k))"

definition updateDoc ::
  "bool \<Rightarrow> users_collection \<Rightarrow> string \<Rightarrow> field_write list \<Rightarrow> error + users_collection" where
  "updateDoc fail db k ws =
     (if fail then Inl RemoteError
      else case db k of
             None \<Rightarrow> Inl RemoteError
           | Some d \<Rightarrow> Inr (db(k \<mapsto> foldl apply_write d ws)))"

definition setDoc ::
  "bool \<Rightarrow> users_collection \<Rightarrow> string \<Rightarrow> UserDoc \<Rightarrow> error + users_collection" where
  "setDoc fail db k d = (if fail then Inl RemoteError else Inr (db(k \<mapsto> d)))"

text \<open>
  The state that the session logic reads and writes: the React state \<open>user\<close>, the
  \<open>guestProfile\<close> entry of local storage (as the profile it parses to) and the remote
  \<open>users\<close> collection.
\<close>

record AppState =
  user :: "UserProfile option"
  guestProfile :: "UserProfile option"
  users :: users_collection

text \<open>The effects of a handler on its collaborators, in the order they are issued.\<close>

datatype effect =
    StorageRemove
  | StorageSet UserProfile
  | DocRead string
  | DocUpdate string "field_write list"
  | DocSet string UserDoc
  | SetUser UserProfile
  | GenerateCall

text \<open>Decimal text of a timestamp, for \<open>'guest-' + Date.now()\<close>.\<close>

fun decimal :: "nat \<Rightarrow> string" where
  "decimal n =
     (if n < 10 then [''0123456789'' ! n]
      else decimal (n div 10) @ [''0123456789'' ! (n mod 10)])"

declare decimal.simps [simp del]

section \<open>Session resolution\<close>

text \<open>
  The callback that \<open>App\<close> registers with \<open>onAuthStateChanged\<close>. \<open>fails\<close> says
  which of its remote calls is rejected; the callback has no handler, so a rejected call
  ends it there. The result is the effects issued, the error that ended the run (if any)
  and the state reached.
\<close>

datatype remote_call = GetDoc | UpdateDoc | GetDocAgain | SetDoc

definition backfill :: "nat \<Rightarrow> UserDoc \<Rightarrow> field_write list" where
  "backfill now userData =
     [SetLastLogin now]
     @ (if doc_coins userData = None then [SetCoins 100] else [])
     @ (if doc_isPremium userData = None then [SetIsPremium False] else [])"

definition newUserData :: "nat \<Rightarrow> AuthUser \<Rightarrow> UserDoc" where
  "newUserData now currentUser =
     \<lparr>doc_displayName = au_displayName currentUser,
      doc_email = au_email currentUser,
      doc_photoURL = au_photoURL currentUser,
      doc_lastLogin = Some now,
      doc_coins = Some 100,
      doc_isPremium = Some False\<rparr>"

text \<open>The profile built from the identity and \<open>userData?.coins\<close>, \<open>userData?.isPremium\<close>.\<close>

definition signedInProfile :: "AuthUser \<Rightarrow> UserDoc option \<Rightarrow> UserProfile" where
  "signedInProfile currentUser userData =
     \<lparr>uid = au_uid currentUser,
      displayName = au_displayName currentUser,
      email = au_email currentUser,
      photoURL = au_photoURL currentUser,
      coins = (case userData of None \<Rightarrow> None | Some d \<Rightarrow> doc_coins d),
      isGuest = False,
      isPremium = (case userData of None \<Rightarrow> None | Some d \<Rightarrow> doc_isPremium d)\<rparr>"

definition newGuestProfile :: "nat \<Rightarrow> UserProfile" where
  "newGuestProfile now =
     \<lparr>uid = ''guest-'' @ decimal now,
      displayName = Some ''Guest'',
      email = None,
      photoURL = None,
      coins = Some 10,
      isGuest = True,
      isPremium = Some False\<rparr>"

definition onAuthStateChanged ::
  "(remote_call \<Rightarrow> bool) \<Rightarrow> nat \<Rightarrow> AuthUser option \<Rightarrow> AppState
     \<Rightarrow> effect list \<times> error option \<times> AppState" where
  "onAuthStateChanged fails now currentUser w =
     (case currentUser of
        Some cu \<Rightarrow>
          (let w1 = w\<lparr>guestProfile := None\<rparr>; k = au_uid cu
           in case getDoc (fails GetDoc) (users w1) k of
                Inl e \<Rightarrow> ([StorageRemove, DocRead k], Some e, w1)
              | Inr (Some userData) \<Rightarrow>
                  (let updates = backfill now userData
                   in case updateDoc (fails UpdateDoc) (users w1) k updates of
                        Inl e \<Rightarrow> ([StorageRemove, DocRead k, DocUpdate k updates], Some e, w1)
                      | Inr db \<Rightarrow>
                          (let w2 = w1\<lparr>users := db\<rparr>
                           in case getDoc (fails GetDocAgain) (users w2) k of
                                Inl e \<Rightarrow>
                                  ([StorageRemove, DocRead k, DocUpdate k updates, DocRead k],
                                   Some e, w2)
                              | Inr userData' \<Rightarrow>
                                  (let p = signedInProfile cu userData'
                                   in ([StorageRemove, DocRead k, DocUpdate k updates, DocRead k,
                                        SetUser p],
                                       None, w2\<lparr>user := Some p\<rparr>))))
              | Inr None \<Rightarrow>
                  (let userData = newUserData now cu
                   in case setDoc (fails SetDoc) (users w1) k userData of
                        Inl e \<Rightarrow> ([StorageRemove, DocRead k, DocSet k userData], Some e, w1)
                      | Inr db \<Rightarrow>
                          (let p = signedInProfile cu (Some userData)
                           in ([StorageRemove, DocRead k, DocSet k userData, SetUser p],
                               None, w1\<lparr>users := db, user := Some p\<rparr>))))
      | None \<Rightarrow>
          (case guestProfile w of
             Some g \<Rightarrow> ([SetUser g], None, w\<lparr>user := Some g\<rparr>)
           | None \<Rightarrow>
               (let g = newGuestProfile now
                in ([StorageSet g, SetUser g], None, w\<lparr>guestProfile := Some g, user := Some g\<rparr>))))"

section \<open>Coins and premium\<close>

definition handleCoinsUpdate :: "int \<Rightarrow> AppState \<Rightarrow> effect list \<times> AppState" where
  "handleCoinsUpdate newBalance w =
     (case user w of
        None \<Rightarrow> ([], w)
      | Some u \<Rightarrow>
          (let updatedUser = u\<lparr>coins := Some newBalance\<rparr>
           in if isGuest u
              then ([SetUser updatedUser, StorageSet updatedUser],
                    w\<lparr>user := Some updatedUser, guestProfile := Some updatedUser\<rparr>)
              else ([SetUser updatedUser], w\<lparr>user := Some updatedUser\<rparr>)))"

text \<open>
  \<open>handlePremiumUnlocked\<close>: the flag is set in memory first; a guest's profile is then
  stored locally, a signed-in user's document gets \<open>{isPremium: true}\<close>.
\<close>

definition handlePremiumUnlocked ::
  "bool \<Rightarrow> AppState \<Rightarrow> effect list \<times> error option \<times> AppState" where
  "handlePremiumUnlocked fail w =
     (case user w of
        None \<Rightarrow> ([], None, w)
      | Some u \<Rightarrow>
          (let updatedUser =
                 u\<lparr>isPremium := Some True, coins := (if isGuest u then coins u else None)\<rparr>;
               w1 = w\<lparr>user := Some updatedUser\<rparr>
           in if isGuest u
              then ([SetUser updatedUser, StorageSet updatedUser], None,
                    w1\<lparr>guestProfile := Some updatedUser\<rparr>)
              else (case updateDoc fail (users w1) (uid u) [SetIsPremium True] of
                      Inl e \<Rightarrow>
                        ([SetUser updatedUser, DocUpdate (uid u) [SetIsPremium True]], Some e, w1)
                    | Inr db \<Rightarrow>
                        ([SetUser updatedUser, DocUpdate (uid u) [SetIsPremium True]], None,
                         w1\<lparr>users := db\<rparr>))))"

text \<open>
  The premium page: \<open>handleChoosePlan\<close> opens the payment dialog for a plan unless the
  user is premium already (\<open>user?.isPremium\<close>).
\<close>

record Plan =
  title :: string
  amount :: nat

definition isPremiumSet :: "UserProfile \<Rightarrow> bool" where
  "isPremiumSet u = (isPremium u = Some True)"

definition handleChoosePlan :: "UserProfile \<Rightarrow> Plan \<Rightarrow> Plan option \<Rightarrow> Plan option" where
  "handleChoosePlan u plan selectedPlan = (if isPremiumSet u then selectedPlan else Some plan)"

text \<open>
  One pass through the unlock flow: the premium page is opened for the current user with
  no plan selected, a plan is chosen, and, if that opened the payment dialog, the payment
  is confirmed, which calls \<open>handlePremiumUnlocked\<close>.
\<close>

definition unlockPremium ::
  "bool \<Rightarrow> Plan \<Rightarrow> AppState \<Rightarrow> effect list \<times> error option \<times> AppState" where
  "unlockPremium fail plan w =
     (case user w of
        None \<Rightarrow> ([], None, w)
      | Some u \<Rightarrow>
          (case handleChoosePlan u plan None of
             None \<Rightarrow> ([], None, w)
           | Some selected \<Rightarrow> handlePremiumUnlocked fail w))"

section \<open>Paid generation panels\<close>

datatype gen_result = GenSuccess | GenFailure | GenPending

datatype submit_result = Ignored | InsufficientCoins | Completed | Failed error | StillLoading

definition IMAGE_COST :: int where
  "IMAGE_COST = 5"

definition VIDEO_COST :: int where
  "VIDEO_COST = 20"

text \<open>\<open>user?.isPremium ?? false\<close> and \<open>user.coins ?? 0\<close>.\<close>

definition premiumOf :: "UserProfile option \<Rightarrow> bool" where
  "premiumOf usr =
     (case usr of
        None \<Rightarrow> False
      | Some u \<Rightarrow> (case isPremium u of None \<Rightarrow> False | Some b \<Rightarrow> b))"

definition coinsOrZero :: "UserProfile \<Rightarrow> int" where
  "coinsOrZero u = (case coins u of None \<Rightarrow> 0 | Some c \<Rightarrow> c)"

definition hasEnoughCoins :: "int \<Rightarrow> UserProfile option \<Rightarrow> bool" where
  "hasEnoughCoins cost usr =
     (case usr of
        None \<Rightarrow> False
      | Some u \<Rightarrow> premiumOf usr \<or> cost \<le> coinsOrZero u)"

text \<open>
  \<open>!prompt.trim()\<close>: the prompt has nothing but white space. Characters are bytes here,
  so the white space is the ASCII part of what \<open>trim\<close> removes.
\<close>

definition js_whitespace :: "char \<Rightarrow> bool" where
  "js_whitespace c = (c \<in> set [CHR '' '', CHR 0x09, CHR 0x0A, CHR 0x0B, CHR 0x0C, CHR 0x0D])"

definition blank :: "string \<Rightarrow> bool" where
  "blank s = list_all js_whitespace s"

text \<open>
  The debit that both panels run after a successful generation when the user is not
  premium: the remote decrement for a signed-in user, then \<open>onUpdateCoins\<close>. A rejected
  remote update is caught by the panel, and \<open>onUpdateCoins\<close> is not reached.
\<close>

definition debit ::
  "int \<Rightarrow> bool \<Rightarrow> UserProfile \<Rightarrow> AppState \<Rightarrow> effect list \<times> submit_result \<times> AppState" where
  "debit cost fail u w =
     (let newBalance = coinsOrZero u - cost
      in if \<not> isGuest u
         then (case updateDoc fail (users w) (uid u) [IncrementCoins (- cost)] of
                 Inl e \<Rightarrow> ([DocUpdate (uid u) [IncrementCoins (- cost)]], Failed e, w)
               | Inr db \<Rightarrow>
                   (let (evs, w') = handleCoinsUpdate newBalance (w\<lparr>users := db\<rparr>)
                    in (DocUpdate (uid u) [IncrementCoins (- cost)] # evs, Completed, w')))
         else (let (evs, w') = handleCoinsUpdate newBalance w in (evs, Completed, w')))"

text \<open>
  \<open>ImageGenerator.handleSubmit\<close>, with the cost as a parameter; the panel uses
  \<open>IMAGE_COST\<close>. \<open>gen\<close> is how \<open>generateImage\<close> ends, \<open>fail\<close> whether the remote
  decrement is rejected.
\<close>

definition imageSubmit ::
  "int \<Rightarrow> string \<Rightarrow> bool \<Rightarrow> gen_result \<Rightarrow> bool \<Rightarrow> AppState
     \<Rightarrow> effect list \<times> submit_result \<times> AppState" where
  "imageSubmit cost prompt loading gen fail w =
     (case user w of
        None \<Rightarrow> ([], Ignored, w)
      | Some u \<Rightarrow>
          if blank prompt \<or> loading then ([], Ignored, w)
          else if \<not> hasEnoughCoins cost (user w) then ([], InsufficientCoins, w)
          else (case gen of
                  GenPending \<Rightarrow> ([GenerateCall], StillLoading, w)
                | GenFailure \<Rightarrow> ([GenerateCall], Failed GenerationError, w)
                | GenSuccess \<Rightarrow>
                    if \<not> premiumOf (user w)
                    then (let (evs, r, w') = debit cost fail u w in (GenerateCall # evs, r, w'))
                    else ([GenerateCall], Completed, w)))"

definition ImageGenerator_handleSubmit ::
  "string \<Rightarrow> bool \<Rightarrow> gen_result \<Rightarrow> bool \<Rightarrow> AppState \<Rightarrow> effect list \<times> submit_result \<times> AppState" where
  "ImageGenerator_handleSubmit = imageSubmit IMAGE_COST"

text \<open>
  \<open>VideoGenerator.handleSubmit\<close>. The video and audio promises are created before the
  \<open>try\<close> block and awaited together.
\<close>

datatype GenerationMode = TextToVideo | ImageToVideo

record VideoPanel =
  vp_prompt :: string
  vp_loading :: bool
  isCheckingKey :: bool
  hasApiKey :: bool
  mode :: GenerationMode
  imageSelected :: bool

definition isGenerateDisabled :: "int \<Rightarrow> VideoPanel \<Rightarrow> UserProfile option \<Rightarrow> bool" where
  "isGenerateDisabled cost p usr =
     (vp_loading p \<or> isCheckingKey p \<or> \<not> hasApiKey p \<or> blank (vp_prompt p)
      \<or> (mode p = ImageToVideo \<and> \<not> imageSelected p) \<or> usr = None
      \<or> \<not> hasEnoughCoins cost usr)"

text \<open>The conditions of \<open>isGenerateDisabled\<close> that do not depend on the user.\<close>

definition panelReady :: "VideoPanel \<Rightarrow> bool" where
  "panelReady p = (\<not> vp_loading p \<and> \<not> isCheckingKey p \<and> hasApiKey p \<and> \<not> blank (vp_prompt p)
      \<and> (mode p = ImageToVideo \<longrightarrow> imageSelected p))"

fun promise_all2 :: "gen_result \<Rightarrow> gen_result \<Rightarrow> gen_result" where
  "promise_all2 GenFailure _ = GenFailure"
| "promise_all2 _ GenFailure = GenFailure"
| "promise_all2 GenSuccess GenSuccess = GenSuccess"
| "promise_all2 _ _ = GenPending"

definition videoSubmit ::
  "int \<Rightarrow> VideoPanel \<Rightarrow> gen_result \<Rightarrow> gen_result \<Rightarrow> bool \<Rightarrow> AppState
     \<Rightarrow> effect list \<times> submit_result \<times> AppState" where
  "videoSubmit cost p video audio fail w =
     (case user w of
        None \<Rightarrow> ([], Ignored, w)
      | Some u \<Rightarrow>
          if isGenerateDisabled cost p (user w) then ([], Ignored, w)
          else if \<not> hasEnoughCoins cost (user w) then ([], InsufficientCoins, w)
          else (case promise_all2 video audio of
                  GenPending \<Rightarrow> ([GenerateCall], StillLoading, w)
                | GenFailure \<Rightarrow> ([GenerateCall], Failed GenerationError, w)
                | GenSuccess \<Rightarrow>
                    if \<not> premiumOf (user w)
                    then (let (evs, r, w') = debit cost fail u w in (GenerateCall # evs, r, w'))
                    else ([GenerateCall], Completed, w)))"

definition VideoGenerator_handleSubmit ::
  "VideoPanel \<Rightarrow> gen_result \<Rightarrow> gen_result \<Rightarrow> bool \<Rightarrow> AppState
     \<Rightarrow> effect list \<times> submit_result \<times> AppState" where
  "VideoGenerator_handleSubmit = videoSubmit VIDEO_COST"

section \<open>Binary64 arithmetic\<close>

text \<open>
  JavaScript computes \<open>/\<close> and \<open>*\<close> on numbers in IEEE 754 binary64: the exact
  result is rounded to the nearest representable value, ties to the even significand.
  \<open>subnormal_scale\<close> is \<open>2 ^ 1074\<close>, so that \<open>1 / subnormal_scale\<close> is the smallest
  positive value; \<open>ulp x\<close> is the spacing of the representable values around a
  non-negative \<open>x\<close>: \<open>2 ^ - 1074\<close> below \<open>2 ^ - 1021\<close>, and \<open>2 ^ (e - 52)\<close> for
  \<open>2 ^ e \<le> x < 2 ^ (e + 1)\<close> above.
\<close>

definition subnormal_scale :: rat where
  "subnormal_scale = 2 ^ 1074"

definition round_even :: "rat \<Rightarrow> int" where
  "round_even y =
     (let f = \<lfloor>y\<rfloor>; r = y - of_int f
      in if r < 1 / 2 then f else if 1 / 2 < r then f + 1 else if even f then f else f + 1)"

definition ulp_shift :: "rat \<Rightarrow> nat" where
  "ulp_shift x = nat (bitlen \<lfloor>x * subnormal_scale\<rfloor> - 53)"

definition ulp :: "rat \<Rightarrow> rat" where
  "ulp x = 2 ^ ulp_shift x / subnormal_scale"

definition round_pos :: "rat \<Rightarrow> rat" where
  "round_pos x = of_int (round_even (x / ulp x)) * ulp x"

definition round_double :: "rat \<Rightarrow> rat" where
  "round_double x = (if x < 0 then - round_pos (- x) else round_pos x)"

definition max_double :: rat where
  "max_double = (2 ^ 53 - 1) * 2 ^ 971"

text \<open>
  The rounded result as a number: beyond the largest finite value it is an infinity.
\<close>

definition js_round :: "rat \<Rightarrow> jsnum" where
  "js_round x =
     (let r = round_double x
      in if max_double < r then PosInf else if r < - max_double then NegInf else Num r)"

text \<open>\<open>x * c\<close> for a number \<open>x\<close> and a finite \<open>c\<close>.\<close>

fun js_times :: "jsnum \<Rightarrow> rat \<Rightarrow> jsnum" where
  "js_times (Num x) c = js_round (x * c)"
| "js_times NaN c = NaN"
| "js_times PosInf c = (if c = 0 then NaN else if 0 < c then PosInf else NegInf)"
| "js_times NegInf c = (if c = 0 then NaN else if 0 < c then NegInf else PosInf)"

text \<open>
  The smallest normal number \<open>2 ^ - 1022\<close>, the values that a number can hold, and the
  value that binary64 arithmetic gives for \<open>(d / frameCount) * i\<close> when no infinity
  arises.
\<close>

definition min_normal :: rat where
  "min_normal = 2 ^ 52 / subnormal_scale"

definition is_double :: "rat \<Rightarrow> bool" where
  "is_double x = (round_double x = x \<and> \<bar>x\<bar> \<le> max_double)"

definition double_time :: "rat \<Rightarrow> nat \<Rightarrow> nat \<Rightarrow> rat" where
  "double_time d frameCount i = round_double (round_double (d / of_nat frameCount) * of_nat i)"

section \<open>Frame extraction\<close>

text \<open>
  \<open>_processVideoToFrames\<close>. The source is a local file or a URL; a file gets a
  temporary object URL. \<open>video\<close> is what the video element and the canvas do for this
  source: whether the metadata loads, the duration reported, whether a seek to a time
  completes, and the base64 JPEG read back from the canvas at a time (\<open>None\<close> when
  \<open>toBlob\<close> yields no blob or the reader fails). Every awaited event is taken to
  fire. The frame count and the loop counter are integers that numbers hold exactly
  (below \<open>2 ^ 53\<close>); times and progress values are computed in binary64.
\<close>

datatype video_source = File string | Url string

record video =
  loads :: bool
  duration :: jsnum
  seek_ok :: "rat \<Rightarrow> bool"
  frame_at :: "rat \<Rightarrow> string option"

record url_store =
  next_url :: nat
  live_urls :: "nat list"

definition createObjectURL :: "url_store \<Rightarrow> nat \<times> url_store" where
  "createObjectURL s = (next_url s, \<lparr>next_url = Suc (next_url s), live_urls = next_url s # live_urls s\<rparr>)"

definition revokeObjectURL :: "nat \<Rightarrow> url_store \<Rightarrow> url_store" where
  "revokeObjectURL u s = s\<lparr>live_urls := removeAll u (live_urls s)\<rparr>"

datatype frame_event = Seek rat | Capture rat | Progress jsnum

text \<open>\<open>duration <= 0\<close> and \<open>isFinite(duration)\<close> on a JavaScript number.\<close>

fun js_le_zero :: "jsnum \<Rightarrow> bool" where
  "js_le_zero (Num x) = (x \<le> 0)"
| "js_le_zero NaN = False"
| "js_le_zero PosInf = False"
| "js_le_zero NegInf = True"

fun js_isFinite :: "jsnum \<Rightarrow> bool" where
  "js_isFinite (Num x) = True"
| "js_isFinite NaN = False"
| "js_isFinite PosInf = False"
| "js_isFinite NegInf = False"

text \<open>\<open>(duration / frameCount) * i\<close> and \<open>((i + 1) / frameCount) * 50\<close>.\<close>

definition frame_time :: "rat \<Rightarrow> nat \<Rightarrow> nat \<Rightarrow> jsnum" where
  "frame_time d frameCount i = js_times (js_round (d / of_nat frameCount)) (of_nat i)"

definition frame_progress :: "nat \<Rightarrow> nat \<Rightarrow> jsnum" where
  "frame_progress frameCount i = js_times (js_round ((of_nat i + 1) / of_nat frameCount)) 50"

text \<open>
  The \<open>for\<close> loop from index \<open>i\<close>: seek, wait, draw and start the read of the frame,
  report progress. Assigning a time that is not finite to \<open>currentTime\<close> throws, and a
  failed seek ends the loop with its error; the reads are collected and awaited after the
  loop.
\<close>

function frame_loop ::
  "video \<Rightarrow> rat \<Rightarrow> nat \<Rightarrow> nat \<Rightarrow> frame_event list \<Rightarrow> string option list
     \<Rightarrow> frame_event list \<times> (error + string option list)" where
  "frame_loop v d frameCount i evs framePromises =
     (if i < frameCount
      then (case frame_time d frameCount i of
              Num time \<Rightarrow>
                if \<not> seek_ok v time then (evs @ [Seek time], Inl SeekError)
                else frame_loop v d frameCount (Suc i)
                       (evs @ [Seek time, Capture time, Progress (frame_progress frameCount i)])
                       (framePromises @ [frame_at v time])
            | _ \<Rightarrow> (evs, Inl TimeError))
      else (evs, Inr framePromises))"
  by pat_completeness auto
termination
  by (relation "measure (\<lambda>(v, d, frameCount, i, evs, ps). frameCount - i)") auto

declare frame_loop.simps [simp del]

text \<open>\<open>Promise.all\<close> over the frame reads: all frames, or the failure of a read.\<close>

fun promise_all :: "string option list \<Rightarrow> error + string list" where
  "promise_all [] = Inr []"
| "promise_all (None # ps) = Inl CaptureError"
| "promise_all (Some f # ps) =
     (case promise_all ps of Inl e \<Rightarrow> Inl e | Inr fs \<Rightarrow> Inr (f # fs))"

definition extract_frames ::
  "video \<Rightarrow> nat \<Rightarrow> frame_event list \<times> (error + string list)" where
  "extract_frames v frameCount =
     (if \<not> loads v then ([], Inl LoadError)
      else if js_le_zero (duration v) \<or> \<not> js_isFinite (duration v)
           then ([], Inl InvalidDuration)
           else (case duration v of
                   Num d \<Rightarrow>
                     (case frame_loop v d frameCount 0 [] [] of
                        (evs, Inl e) \<Rightarrow> (evs, Inl e)
                      | (evs, Inr ps) \<Rightarrow> (evs, promise_all ps))
                 | _ \<Rightarrow> ([], Inl InvalidDuration)))"

text \<open>The whole method: the \<open>try\<close> body above between allocation and \<open>finally\<close>.\<close>

definition processVideoToFrames ::
  "video \<Rightarrow> video_source \<Rightarrow> nat \<Rightarrow> url_store
     \<Rightarrow> frame_event list \<times> (error + string list) \<times> url_store" where
  "processVideoToFrames v videoSource frameCount s =
     (case videoSource of
        File f \<Rightarrow>
          (let (videoURL, s1) = createObjectURL s;
               (evs, r) = extract_frames v frameCount
           in (evs, r, revokeObjectURL videoURL s1))
      | Url u \<Rightarrow>
          (let (evs, r) = extract_frames v frameCount in (evs, r, s)))"

definition seek_times :: "frame_event list \<Rightarrow> rat list" where
  "seek_times evs = concat (map (\<lambda>e. case e of Seek t \<Rightarrow> [t] | _ \<Rightarrow> []) evs)"

definition capture_times :: "frame_event list \<Rightarrow> rat list" where
  "capture_times evs = concat (map (\<lambda>e. case e of Capture t \<Rightarrow> [t] | _ \<Rightarrow> []) evs)"

section \<open>Sample inputs\<close>

text \<open>Concrete users, documents, states and a video, used to run the model.\<close>

definition alice :: AuthUser where
  "alice = \<lparr>au_uid = ''u1'', au_displayName = Some ''Alice'',
            au_email = Some ''alice@example.org'', au_photoURL = None\<rparr>"

definition guest_with :: "int \<Rightarrow> UserProfile" where
  "guest_with c =
     \<lparr>uid = ''guest-1'', displayName = Some ''Guest'', email = None, photoURL = None,
      coins = Some c, isGuest = True, isPremium = Some False\<rparr>"

definition guest_state :: "int \<Rightarrow> AppState" where
  "guest_state c = \<lparr>user = Some (guest_with c), guestProfile = Some (guest_with c), users = Map.empty\<rparr>"

definition legacy_doc :: UserDoc where
  "legacy_doc =
     \<lparr>doc_displayName = Some ''Alice'', doc_email = Some ''alice@example.org'',
      doc_photoURL = None, doc_lastLogin = Some 5, doc_coins = None, doc_isPremium = None\<rparr>"

definition guest_session :: AppState where
  "guest_session =
     \<lparr>user = Some (guest_with 7), guestProfile = Some (guest_with 7),
      users = [''u1'' \<mapsto> legacy_doc]\<rparr>"

definition starting_state :: AppState where
  "starting_state = \<lparr>user = None, guestProfile = Some (guest_with 7), users = Map.empty\<rparr>"

definition member :: UserProfile where
  "member =
     \<lparr>uid = ''u1'', displayName = Some ''Alice'', email = Some ''alice@example.org'',
      photoURL = None, coins = Some 40, isGuest = False, isPremium = Some False\<rparr>"

definition member_doc :: UserDoc where
  "member_doc =
     \<lparr>doc_displayName = Some ''Alice'', doc_email = Some ''alice@example.org'',
      doc_photoURL = None, doc_lastLogin = Some 5, doc_coins = Some 40,
      doc_isPremium = Some False\<rparr>"

definition member_session :: AppState where
  "member_session = \<lparr>user = Some member, guestProfile = None, users = [''u1'' \<mapsto> member_doc]\<rparr>"

definition premium_session :: AppState where
  "premium_session =
     \<lparr>user = Some (member\<lparr>isPremium := Some True, coins := None\<rparr>), guestProfile = None,
      users = [''u1'' \<mapsto> member_doc\<lparr>doc_isPremium := Some True\<rparr>]\<rparr>"

definition monthly :: Plan where
  "monthly = \<lparr>title = ''Monthly'', amount = 499\<rparr>"

definition ready_panel :: VideoPanel where
  "ready_panel =
     \<lparr>vp_prompt = ''a cat'', vp_loading = False, isCheckingKey = False, hasApiKey = True,
      mode = TextToVideo, imageSelected = False\<rparr>"

fun getDoc_fails :: "remote_call \<Rightarrow> bool" where
  "getDoc_fails GetDoc = True"
| "getDoc_fails _ = False"

definition all_ok :: "remote_call \<Rightarrow> bool" where
  "all_ok c = False"

definition sample_video :: video where
  "sample_video =
     \<lparr>loads = True, duration = Num 6, seek_ok = (\<lambda>t. True),
      frame_at = (\<lambda>t. Some (if t = 0 then ''AAAA'' else if t = 2 then ''BBBB'' else ''CCCC''))\<rparr>"

definition empty_store :: url_store where
  "empty_store = \<lparr>next_url = 0, live_urls = []\<rparr>"

definition tiny_video :: video where
  "tiny_video = sample_video\<lparr>duration := Num (1 / subnormal_scale)\<rparr>"

definition short_video :: video where
  "short_video = sample_video\<lparr>duration := Num (3 / subnormal_scale)\<rparr>"

section \<open>Properties of the PCM conversion\<close>

lemma sint_word16_of_int:
  "sint (word_of_int k :: 16 word) = (k + 32768) mod 65536 - 32768"
  by (simp add: sint_sbintrunc' signed_take_bit_eq_take_bit_shift take_bit_eq_mod)

lemma js_trunc_scaled_bounds:
  assumes "- 1 \<le> s" "s < 1"
  shows "- 32768 \<le> js_trunc (s * 32768) \<and> js_trunc (s * 32768) < 32768"
proof -
  from assms have lo: "- 32768 \<le> s * 32768" and hi: "s * 32768 < 32768"
    by simp_all
  show ?thesis
  proof (cases "s * 32768 < 0")
    case True
    then have t: "js_trunc (s * 32768) = \<lceil>s * 32768\<rceil>"
      by (simp add: js_trunc_def)
    have "\<lceil>s * 32768\<rceil> \<le> 0" using True by (simp add: ceiling_le_iff)
    moreover have "- 32768 \<le> \<lceil>s * 32768\<rceil>" using lo by (simp add: le_ceiling_iff)
    ultimately show ?thesis using t by simp
  next
    case False
    then have t: "js_trunc (s * 32768) = \<lfloor>s * 32768\<rfloor>"
      by (simp add: js_trunc_def)
    have "0 \<le> \<lfloor>s * 32768\<rfloor>" using False by simp
    moreover have "\<lfloor>s * 32768\<rfloor> < 32768" using hi by (simp add: floor_less_iff)
    ultimately show ?thesis using t by simp
  qed
qed

text \<open>
  Claim C9. The conversion stores, for every finite sample \<open>s\<close>, the integer part of
  \<open>s * 32768\<close> reduced modulo \<open>2 ^ 16\<close> into the signed 16-bit range, with no clamping:
  for \<open>- 1 \<le> s < 1\<close> the stored value is exactly that integer part, while \<open>s = 1\<close>
  wraps to \<open>- 32768\<close> (a saturating conversion would give \<open>32767\<close>) and a sample of
  \<open>1.5\<close> wraps to \<open>- 16384\<close>. The output has one 16-bit value per input sample.
\<close>

theorem createBlob_scales_without_clamping:
  "length (createBlob_int16 data) = length data
   \<and> (\<forall>i < length data. createBlob_int16 data ! i = pcm16_sample (data ! i))
   \<and> sint (pcm16_sample (Num s)) = (js_trunc (s * 32768) + 32768) mod 65536 - 32768
   \<and> (- 1 \<le> s \<and> s < 1 \<longrightarrow> sint (pcm16_sample (Num s)) = js_trunc (s * 32768))
   \<and> sint (pcm16_sample (Num 1)) = - 32768
   \<and> sint (pcm16_sample (Num (3 / 2))) = - 16384"
proof -
  have gen: "sint (pcm16_sample (Num x)) = (js_trunc (x * 32768) + 32768) mod 65536 - 32768" for x
    by (simp add: pcm16_sample_def sint_word16_of_int)
  have inr: "sint (pcm16_sample (Num s)) = js_trunc (s * 32768)" if "- 1 \<le> s" "s < 1"
  proof -
    from js_trunc_scaled_bounds [OF that]
    have "(js_trunc (s * 32768) + 32768) mod 65536 = js_trunc (s * 32768) + 32768"
      by (intro mod_pos_pos_trivial) simp_all
    then show ?thesis by (simp add: gen)
  qed
  have one: "sint (pcm16_sample (Num 1)) = - 32768"
    by (simp add: gen js_trunc_def)
  have big: "sint (pcm16_sample (Num (3 / 2))) = - 16384"
    by (simp add: gen js_trunc_def)
  show ?thesis
    using gen inr one big by (simp add: createBlob_int16_def)
qed

theorem createBlob_scales_without_clamping_witness:
  "(- 1 \<le> (1 / 2 :: rat) \<and> (1 / 2 :: rat) < 1)
   \<and> sint (pcm16_sample (Num (1 / 2))) = 16384
   \<and> createBlob_int16 [Num (1 / 2), Num (- 1), NaN] ! 1 = pcm16_sample (Num (- 1))"
  using createBlob_scales_without_clamping [of "[Num (1 / 2), Num (- 1), NaN]" "1 / 2"]
  by (simp add: js_trunc_def)

section \<open>Properties of binary64 rounding\<close>

lemma subnormal_scale_pos [simp]: "0 < subnormal_scale"
  by (simp add: subnormal_scale_def)

lemma subnormal_scale_nonneg [simp]: "0 \<le> subnormal_scale"
  by (simp add: subnormal_scale_def)

lemma subnormal_scale_nonzero [simp]: "subnormal_scale \<noteq> 0"
  by (simp add: subnormal_scale_def)

lemma round_even_near: "\<bar>y - of_int (round_even y)\<bar> \<le> 1 / 2"
proof -
  have "of_int \<lfloor>y\<rfloor> \<le> y" "y < of_int \<lfloor>y\<rfloor> + 1" by linarith+
  then show ?thesis by (auto simp: round_even_def Let_def)
qed

lemma round_even_of_int [simp]: "round_even (of_int k) = k"
  by (simp add: round_even_def)

lemma round_even_mono:
  assumes "y1 \<le> y2"
  shows "round_even y1 \<le> round_even y2"
proof (rule ccontr)
  assume "\<not> round_even y1 \<le> round_even y2"
  then have "round_even y2 + 1 \<le> round_even y1" by simp
  then have c: "(of_int (round_even y2) :: rat) + 1 \<le> of_int (round_even y1)"
    by (metis of_int_1 of_int_add of_int_le_iff)
  have "\<bar>y1 - of_int (round_even y1)\<bar> \<le> 1 / 2" "\<bar>y2 - of_int (round_even y2)\<bar> \<le> 1 / 2"
    by (rule round_even_near)+
  with c assms have "y1 = y2" by linarith
  with \<open>\<not> round_even y1 \<le> round_even y2\<close> show False by simp
qed

lemma round_even_nonneg: "0 \<le> y \<Longrightarrow> 0 \<le> round_even y"
  using round_even_mono [of 0 y] round_even_of_int [of 0] by simp

lemma bitlen_mono: "a \<le> b \<Longrightarrow> bitlen a \<le> bitlen b"
  by (simp add: bitlen_def floorlog_mono nat_mono)

lemma ulp_shift_mono:
  assumes "x \<le> y"
  shows "ulp_shift x \<le> ulp_shift y"
proof -
  have "x * subnormal_scale \<le> y * subnormal_scale" using assms by simp
  then have "\<lfloor>x * subnormal_scale\<rfloor> \<le> \<lfloor>y * subnormal_scale\<rfloor>" by (rule floor_mono)
  then have "bitlen \<lfloor>x * subnormal_scale\<rfloor> \<le> bitlen \<lfloor>y * subnormal_scale\<rfloor>" by (rule bitlen_mono)
  then show ?thesis by (simp add: ulp_shift_def)
qed

lemma ulp_pos: "0 < ulp x"
  by (simp add: ulp_def)

lemma ulp_mono: "x \<le> y \<Longrightarrow> ulp x \<le> ulp y"
  using ulp_shift_mono [of x y] by (simp add: ulp_def divide_right_mono)

lemma below_binade_top:
  assumes "0 \<le> x"
  shows "x < 2 ^ 53 * ulp x"
proof -
  define n where "n = \<lfloor>x * subnormal_scale\<rfloor>"
  have n0: "0 \<le> n" using assms by (simp add: n_def)
  have up: "n + 1 \<le> 2 ^ nat (bitlen n)"
  proof (cases "n = 0")
    case True
    then show ?thesis by simp
  next
    case False
    with n0 have "0 < n" by simp
    from bitlen_bounds [OF this] show ?thesis by simp
  qed
  have "bitlen n \<le> 53 + int (ulp_shift x)"
    by (simp add: ulp_shift_def n_def)
  then have "nat (bitlen n) \<le> 53 + ulp_shift x" by simp
  then have "(2::int) ^ nat (bitlen n) \<le> 2 ^ (53 + ulp_shift x)"
    by (rule power_increasing) simp
  with up have "n + 1 \<le> 2 ^ (53 + ulp_shift x)" by (rule order_trans)
  then have "(of_int (n + 1) :: rat) \<le> of_int (2 ^ (53 + ulp_shift x))"
    by (simp only: of_int_le_iff)
  then have le: "(of_int n :: rat) + 1 \<le> 2 ^ (53 + ulp_shift x)" by simp
  have "x * subnormal_scale < of_int n + 1" unfolding n_def by linarith
  with le have "x * subnormal_scale < 2 ^ (53 + ulp_shift x)" by simp
  then have "x < 2 ^ (53 + ulp_shift x) / subnormal_scale"
    by (simp add: pos_less_divide_eq)
  then show ?thesis by (simp add: ulp_def power_add)
qed

lemma above_binade_bottom:
  assumes "0 < ulp_shift x"
  shows "2 ^ 52 * ulp x \<le> x"
proof -
  define n where "n = \<lfloor>x * subnormal_scale\<rfloor>"
  from assms have b: "53 < bitlen n" by (simp add: ulp_shift_def n_def)
  then have "0 < n" using bitlen_eq_zero_iff [of n] by (cases "0 < n") auto
  from bitlen_bounds [OF this] have lo: "2 ^ nat (bitlen n - 1) \<le> n" by simp
  have "nat (bitlen n - 1) = 52 + ulp_shift x"
    using b by (simp add: ulp_shift_def n_def)
  with lo have "2 ^ (52 + ulp_shift x) \<le> n" by simp
  then have "(of_int (2 ^ (52 + ulp_shift x)) :: rat) \<le> of_int n"
    by (simp only: of_int_le_iff)
  then have "(2 :: rat) ^ (52 + ulp_shift x) \<le> of_int n" by simp
  also have "of_int n \<le> x * subnormal_scale" unfolding n_def by linarith
  finally have "(2 :: rat) ^ (52 + ulp_shift x) / subnormal_scale \<le> x"
    by (simp add: pos_divide_le_eq)
  then show ?thesis by (simp add: ulp_def power_add)
qed

lemma ulp_normal:
  assumes "2 ^ 52 / subnormal_scale \<le> x"
  shows "2 ^ 52 * ulp x \<le> x"
proof (cases "0 < ulp_shift x")
  case True
  then show ?thesis by (rule above_binade_bottom)
next
  case False
  then have "ulp x = 1 / subnormal_scale" by (simp add: ulp_def)
  with assms show ?thesis by simp
qed

lemma round_pos_zero [simp]: "round_pos 0 = 0"
  using round_even_of_int [of 0] by (simp add: round_pos_def del: round_even_of_int)

lemma round_pos_nonneg: "0 \<le> x \<Longrightarrow> 0 \<le> round_pos x"
  using ulp_pos [of x] by (simp add: round_pos_def round_even_nonneg)

lemma round_pos_error:
  "\<bar>round_pos x - x\<bar> \<le> ulp x / 2"
proof -
  have u: "0 < ulp x" by (rule ulp_pos)
  have "\<bar>x / ulp x - of_int (round_even (x / ulp x))\<bar> * ulp x \<le> 1 / 2 * ulp x"
    using round_even_near [of "x / ulp x"] u by (intro mult_right_mono) simp_all
  moreover have "\<bar>x / ulp x - of_int (round_even (x / ulp x))\<bar> * ulp x = \<bar>round_pos x - x\<bar>"
  proof -
    have "\<bar>x / ulp x - of_int (round_even (x / ulp x))\<bar> * ulp x
        = \<bar>(x / ulp x - of_int (round_even (x / ulp x))) * ulp x\<bar>"
      using u by (simp add: abs_mult)
    also have "(x / ulp x - of_int (round_even (x / ulp x))) * ulp x = x - round_pos x"
      using u by (simp add: round_pos_def algebra_simps)
    finally show ?thesis by (simp add: abs_minus_commute)
  qed
  ultimately show ?thesis by simp
qed

lemma round_pos_le_top:
  assumes "0 \<le> x"
  shows "round_pos x \<le> 2 ^ 53 * ulp x"
proof -
  have u: "0 < ulp x" by (rule ulp_pos)
  have "x / ulp x \<le> 2 ^ 53"
    using below_binade_top [OF assms] u by (simp add: pos_divide_le_eq)
  then have "x / ulp x \<le> of_int (2 ^ 53)" by simp
  then have "round_even (x / ulp x) \<le> round_even (of_int (2 ^ 53))" by (rule round_even_mono)
  then have "round_even (x / ulp x) \<le> 2 ^ 53" by (simp only: round_even_of_int)
  then have "(of_int (round_even (x / ulp x)) :: rat) \<le> of_int (2 ^ 53)"
    by (simp only: of_int_le_iff)
  then have "(of_int (round_even (x / ulp x)) :: rat) * ulp x \<le> of_int (2 ^ 53) * ulp x"
    using u by (intro mult_right_mono) simp_all
  then show ?thesis by (simp add: round_pos_def)
qed

lemma round_pos_ge_bottom:
  assumes "0 < ulp_shift x"
  shows "2 ^ 52 * ulp x \<le> round_pos x"
proof -
  have u: "0 < ulp x" by (rule ulp_pos)
  have "2 ^ 52 \<le> x / ulp x"
    using above_binade_bottom [OF assms] u by (simp add: pos_le_divide_eq)
  then have "of_int (2 ^ 52) \<le> x / ulp x" by simp
  then have "round_even (of_int (2 ^ 52)) \<le> round_even (x / ulp x)" by (rule round_even_mono)
  then have "2 ^ 52 \<le> round_even (x / ulp x)" by (simp only: round_even_of_int)
  then have "(of_int (2 ^ 52) :: rat) \<le> of_int (round_even (x / ulp x))"
    by (simp only: of_int_le_iff)
  then have "(of_int (2 ^ 52) :: rat) * ulp x \<le> of_int (round_even (x / ulp x)) * ulp x"
    using u by (intro mult_right_mono) simp_all
  then show ?thesis by (simp add: round_pos_def)
qed

lemma round_pos_mono:
  assumes "0 \<le> x" "x \<le> y"
  shows "round_pos x \<le> round_pos y"
proof (cases "ulp_shift x = ulp_shift y")
  case True
  then have e: "ulp x = ulp y" by (simp add: ulp_def)
  have u: "0 < ulp y" by (rule ulp_pos)
  have "x / ulp y \<le> y / ulp y" using assms u by (simp add: divide_right_mono)
  then have "round_even (x / ulp y) \<le> round_even (y / ulp y)" by (rule round_even_mono)
  then have "(of_int (round_even (x / ulp y)) :: rat) \<le> of_int (round_even (y / ulp y))"
    by (simp only: of_int_le_iff)
  then have "(of_int (round_even (x / ulp y)) :: rat) * ulp y
      \<le> of_int (round_even (y / ulp y)) * ulp y"
    using u by (intro mult_right_mono) simp_all
  then show ?thesis by (simp add: round_pos_def e)
next
  case False
  with ulp_shift_mono [OF assms(2)] have lt: "ulp_shift x < ulp_shift y" by simp
  then have "Suc (ulp_shift x) \<le> ulp_shift y" by simp
  then have "(2::rat) ^ Suc (ulp_shift x) \<le> 2 ^ ulp_shift y"
    by (rule power_increasing) simp
  then have "2 * ulp x \<le> ulp y"
    by (simp add: ulp_def divide_right_mono)
  then have "2 ^ 53 * ulp x \<le> 2 ^ 52 * ulp y" by simp
  moreover have "round_pos x \<le> 2 ^ 53 * ulp x" by (rule round_pos_le_top [OF assms(1)])
  moreover have "2 ^ 52 * ulp y \<le> round_pos y"
    using lt by (intro round_pos_ge_bottom) simp
  ultimately show ?thesis by linarith
qed

lemma round_pos_exact:
  assumes "0 < m" "m < 2 ^ 53"
  shows "round_pos (of_int m * 2 ^ e / subnormal_scale) = of_int m * 2 ^ e / subnormal_scale"
proof -
  define x where "x = (of_int m :: rat) * 2 ^ e / subnormal_scale"
  have "x * subnormal_scale = of_int (m * 2 ^ e)" by (simp add: x_def)
  then have fl: "\<lfloor>x * subnormal_scale\<rfloor> = m * 2 ^ e" by (simp only: floor_of_int)
  have bl: "bitlen m \<le> 53"
  proof (rule ccontr)
    assume "\<not> bitlen m \<le> 53"
    then have "53 \<le> nat (bitlen m - 1)" by simp
    then have "(2::int) ^ 53 \<le> 2 ^ nat (bitlen m - 1)" by (rule power_increasing) simp
    with bitlen_bounds [OF assms(1)] assms(2) show False by linarith
  qed
  define s where "s = ulp_shift x"
  have "s = nat (bitlen (m * 2 ^ e) - 53)"
    unfolding s_def ulp_shift_def by (simp only: fl)
  moreover have "bitlen (m * 2 ^ e) = bitlen m + int e" using assms(1) by (rule bitlen_pow2)
  ultimately have sh: "s \<le> e" using bl by simp
  have u: "ulp x = 2 ^ s / subnormal_scale" by (simp add: ulp_def s_def)
  have p2: "(2::rat) ^ e = 2 ^ (e - s) * 2 ^ s"
    using sh by (simp flip: power_add)
  have xe: "x = of_int m * (2 ^ (e - s) * 2 ^ s) / subnormal_scale"
    by (simp only: x_def p2)
  have "x / ulp x = x / (2 ^ s / subnormal_scale)" by (simp only: u)
  also have "\<dots> = of_int m * 2 ^ (e - s)" by (subst xe) simp
  finally have q: "x / ulp x = of_int (m * 2 ^ (e - s))" by simp
  have "round_pos x = of_int (round_even (of_int (m * 2 ^ (e - s)))) * ulp x"
    by (simp only: round_pos_def q)
  also have "\<dots> = of_int (m * 2 ^ (e - s)) * ulp x"
    by (simp only: round_even_of_int)
  also have "\<dots> = x / ulp x * ulp x" by (simp only: q)
  also have "\<dots> = x" using ulp_pos [of x] by simp
  finally show ?thesis by (simp only: x_def)
qed

lemma round_double_nonneg_eq: "0 \<le> x \<Longrightarrow> round_double x = round_pos x"
  by (simp add: round_double_def)

lemma round_double_zero [simp]: "round_double 0 = 0"
  by (simp add: round_double_def)

lemma round_double_nonneg: "0 \<le> x \<Longrightarrow> 0 \<le> round_double x"
  by (simp add: round_double_nonneg_eq round_pos_nonneg)

lemma round_double_mono: "0 \<le> x \<Longrightarrow> x \<le> y \<Longrightarrow> round_double x \<le> round_double y"
  by (simp add: round_double_nonneg_eq round_pos_mono)

lemma round_double_exact:
  "0 < m \<Longrightarrow> m < 2 ^ 53 \<Longrightarrow>
   round_double (of_int m * 2 ^ e / subnormal_scale) = of_int m * 2 ^ e / subnormal_scale"
  by (simp add: round_double_nonneg_eq round_pos_exact)

lemma round_double_rel_error:
  assumes "2 ^ 52 / subnormal_scale \<le> x"
  shows "\<bar>round_double x - x\<bar> \<le> x / 2 ^ 53"
proof -
  have x0: "0 \<le> x" using assms by (rule order_trans [rotated]) simp
  have "\<bar>round_pos x - x\<bar> \<le> ulp x / 2" by (rule round_pos_error)
  moreover have "2 ^ 52 * ulp x \<le> x" by (rule ulp_normal [OF assms])
  ultimately have "\<bar>round_pos x - x\<bar> \<le> x / 2 ^ 53" by simp
  then show ?thesis by (simp add: round_double_nonneg_eq [OF x0])
qed

lemma min_normal_pos: "0 < min_normal"
  by (simp add: min_normal_def)

lemma round_double_min_normal: "round_double min_normal = min_normal"
  using round_double_exact [of 1 52] by (simp add: min_normal_def)

lemma round_double_small_bound:
  "round_double (min_normal * 2 ^ 51) = min_normal * 2 ^ 51"
  using round_double_exact [of 1 103] by (simp add: min_normal_def)

lemma small_bound_finite: "min_normal * 2 ^ 51 \<le> max_double"
  by (simp add: min_normal_def max_double_def subnormal_scale_def)

lemma round_double_upper:
  assumes "min_normal \<le> x"
  shows "round_double x \<le> x * (1 + 1 / 2 ^ 53)"
proof -
  have "\<bar>round_double x - x\<bar> \<le> x / 2 ^ 53"
    using assms by (intro round_double_rel_error) (simp add: min_normal_def)
  then have "round_double x \<le> x + x / 2 ^ 53" by linarith
  then show ?thesis by (simp add: algebra_simps)
qed

lemma round_double_lower:
  assumes "min_normal \<le> x"
  shows "x * (1 - 1 / 2 ^ 53) \<le> round_double x"
proof -
  have "\<bar>round_double x - x\<bar> \<le> x / 2 ^ 53"
    using assms by (intro round_double_rel_error) (simp add: min_normal_def)
  then have "x - x / 2 ^ 53 \<le> round_double x" by linarith
  then show ?thesis by (simp add: algebra_simps)
qed

lemma step_bounds:
  assumes "0 < d" "round_double d = d" "1 \<le> N"
  shows "0 \<le> round_double (d / of_nat N) \<and> round_double (d / of_nat N) \<le> d"
proof -
  have n: "(1::rat) \<le> of_nat N" using assms(3) by simp
  have a0: "0 \<le> d / of_nat N" using assms(1) by simp
  have "d / of_nat N \<le> d / 1" using assms(1) n by (intro divide_left_mono) simp_all
  then have "d / of_nat N \<le> d" by simp
  from round_double_mono [OF a0 this] assms(2) round_double_nonneg [OF a0]
  show ?thesis by simp
qed

lemma double_time_nonneg:
  assumes "0 < d" "round_double d = d" "1 \<le> N"
  shows "0 \<le> double_time d N i"
  unfolding double_time_def
  using step_bounds [OF assms] by (intro round_double_nonneg mult_nonneg_nonneg) simp_all

lemma double_time_zero [simp]: "double_time d N 0 = 0"
  by (simp add: double_time_def)

lemma double_time_mono:
  assumes "0 < d" "round_double d = d" "1 \<le> N" "i \<le> j"
  shows "double_time d N i \<le> double_time d N j"
proof -
  let ?q = "round_double (d / of_nat N)"
  have q: "0 \<le> ?q" using step_bounds [OF assms(1-3)] by simp
  have "?q * of_nat i \<le> ?q * of_nat j" using q assms(4) by (intro mult_left_mono) simp_all
  moreover have "0 \<le> ?q * of_nat i" using q by simp
  ultimately show ?thesis unfolding double_time_def by (intro round_double_mono)
qed

lemma normal_step:
  assumes "0 < d" "1 \<le> N" "min_normal \<le> d / of_nat N"
  shows "min_normal \<le> round_double (d / of_nat N)"
    and "round_double (d / of_nat N) \<le> d / of_nat N * (1 + 1 / 2 ^ 53)"
proof -
  have "0 \<le> min_normal" using min_normal_pos by simp
  from round_double_mono [OF this assms(3)]
  show "min_normal \<le> round_double (d / of_nat N)" by (simp add: round_double_min_normal)
  show "round_double (d / of_nat N) \<le> d / of_nat N * (1 + 1 / 2 ^ 53)"
    by (rule round_double_upper [OF assms(3)])
qed

lemma product_below_duration:
  assumes "0 < d" "1 \<le> N" "N \<le> 2 ^ 51" "min_normal \<le> d / of_nat N" "i < N"
  shows "round_double (d / of_nat N) * of_nat i \<le> d * (1 - 1 / 2 ^ 52)"
proof -
  let ?n = "of_nat N :: rat"
  let ?a = "d / ?n"
  let ?q = "round_double ?a"
  have n1: "1 \<le> ?n" using assms(2) by simp
  have n2: "?n \<le> 2 ^ 51" using assms(3) by (metis of_nat_le_iff of_nat_numeral of_nat_power)
  have a: "0 < ?a" using assms(1) n1 by simp
  have q0: "0 \<le> ?q" using normal_step(1) [OF assms(1,2,4)] min_normal_pos by linarith
  have "of_nat i \<le> ?n - 1" using assms(5)
    by (metis Suc_leI of_nat_Suc of_nat_le_iff le_diff_eq add.commute)
  then have "?q * of_nat i \<le> ?q * (?n - 1)" using q0 by (intro mult_left_mono)
  also have "\<dots> \<le> (?a * (1 + 1 / 2 ^ 53)) * (?n - 1)"
    using normal_step(2) [OF assms(1,2,4)] n1 by (intro mult_right_mono) simp_all
  also have "\<dots> = ?a * ((1 + 1 / 2 ^ 53) * (?n - 1))" by simp
  also have "\<dots> \<le> ?a * (?n * (1 - 1 / 2 ^ 52))"
  proof (intro mult_left_mono)
    show "(1 + 1 / 2 ^ 53) * (?n - 1) \<le> ?n * (1 - 1 / 2 ^ 52)"
      using n1 n2 by (simp add: algebra_simps)
    show "0 \<le> ?a" using a by simp
  qed
  also have "\<dots> = d * (1 - 1 / 2 ^ 52)" using n1 by simp
  finally show ?thesis .
qed

lemma double_time_below_duration:
  assumes "0 < d" "round_double d = d" "1 \<le> N" "N \<le> 2 ^ 51"
    and "min_normal \<le> d / of_nat N" "i < N"
  shows "double_time d N i < d"
proof (cases "i = 0")
  case True
  then show ?thesis using assms(1) by simp
next
  case False
  let ?q = "round_double (d / of_nat N)"
  have q: "min_normal \<le> ?q" by (rule normal_step(1) [OF assms(1,3,5)])
  have i1: "(1::rat) \<le> of_nat i" using False by (simp add: Suc_le_eq)
  have "?q * 1 \<le> ?q * of_nat i"
    using q min_normal_pos i1 by (intro mult_left_mono) simp_all
  with q have x: "min_normal \<le> ?q * of_nat i" by simp
  have p: "?q * of_nat i \<le> d * (1 - 1 / 2 ^ 52)"
    by (rule product_below_duration [OF assms(1,3,4,5,6)])
  have "double_time d N i \<le> ?q * of_nat i * (1 + 1 / 2 ^ 53)"
    unfolding double_time_def by (rule round_double_upper [OF x])
  also have "\<dots> \<le> d * (1 - 1 / 2 ^ 52) * (1 + 1 / 2 ^ 53)"
    using p by (intro mult_right_mono) simp_all
  also have "\<dots> = d * ((1 - 1 / 2 ^ 52) * (1 + 1 / 2 ^ 53))" by simp
  also have "\<dots> < d * 1"
    using assms(1) by (intro mult_strict_left_mono) simp_all
  finally show ?thesis by simp
qed

lemma double_time_strict_step:
  assumes "0 < d" "1 \<le> N" "N \<le> 2 ^ 51"
    and "min_normal \<le> d / of_nat N" "Suc i < N"
  shows "double_time d N i < double_time d N (Suc i)"
proof -
  let ?q = "round_double (d / of_nat N)"
  let ?k = "of_nat i :: rat"
  have q: "min_normal \<le> ?q" by (rule normal_step(1) [OF assms(1,2,4)])
  have q0: "0 < ?q" using q min_normal_pos by linarith
  have y: "min_normal \<le> ?q * of_nat (Suc i)"
  proof -
    have "?q * 1 \<le> ?q * of_nat (Suc i)" using q0 by (intro mult_left_mono) simp_all
    with q show ?thesis by simp
  qed
  have k: "?k \<le> 2 ^ 51"
  proof -
    have "i \<le> 2 ^ 51" using assms(3,5) by simp
    then show ?thesis by (metis of_nat_le_iff of_nat_numeral of_nat_power)
  qed
  have k0: "0 \<le> ?k" by simp
  have lo: "?q * of_nat (Suc i) * (1 - 1 / 2 ^ 53) \<le> double_time d N (Suc i)"
    unfolding double_time_def by (rule round_double_lower [OF y])
  have gap: "?k * (1 + 1 / 2 ^ 53) < (?k + 1) * (1 - 1 / 2 ^ 53)"
    using k k0 by (simp add: algebra_simps)
  show ?thesis
  proof (cases "i = 0")
    case True
    have "0 < ?q * of_nat (Suc i) * (1 - 1 / 2 ^ 53)" using q0 by simp
    with lo True show ?thesis by simp
  next
    case False
    then have i1: "(1::rat) \<le> ?k" by (simp add: Suc_le_eq)
    have "?q * 1 \<le> ?q * ?k" using q0 i1 by (intro mult_left_mono) simp_all
    with q have x: "min_normal \<le> ?q * ?k" by simp
    have "double_time d N i \<le> ?q * ?k * (1 + 1 / 2 ^ 53)"
      unfolding double_time_def by (rule round_double_upper [OF x])
    also have "\<dots> = ?q * (?k * (1 + 1 / 2 ^ 53))" by simp
    also have "\<dots> < ?q * ((?k + 1) * (1 - 1 / 2 ^ 53))"
      using gap q0 by (rule mult_strict_left_mono)
    also have "\<dots> = ?q * of_nat (Suc i) * (1 - 1 / 2 ^ 53)" by (simp add: algebra_simps)
    also have "\<dots> \<le> double_time d N (Suc i)" by (rule lo)
    finally show ?thesis .
  qed
qed

lemma double_time_strict:
  assumes "0 < d" "round_double d = d" "1 \<le> N" "N \<le> 2 ^ 51"
    and "min_normal \<le> d / of_nat N" "i < j" "j < N"
  shows "double_time d N i < double_time d N j"
proof -
  have "Suc i < N" using assms(6,7) by simp
  from double_time_strict_step [OF assms(1,3,4,5) this]
  have "double_time d N i < double_time d N (Suc i)" .
  also have "\<dots> \<le> double_time d N j"
    using assms(6) by (intro double_time_mono [OF assms(1-3)]) simp
  finally show ?thesis .
qed

lemma double_time_finite:
  assumes "0 < d" "is_double d" "1 \<le> N" "N \<le> 2 ^ 51" "i < N"
  shows "double_time d N i \<le> max_double"
proof -
  have rd: "round_double d = d" and dm: "d \<le> max_double"
    using assms(1,2) by (simp_all add: is_double_def)
  let ?q = "round_double (d / of_nat N)"
  have q0: "0 \<le> ?q" using step_bounds [OF assms(1) rd assms(3)] by simp
  show ?thesis
  proof (cases "min_normal \<le> d / of_nat N")
    case True
    from double_time_below_duration [OF assms(1) rd assms(3,4) True assms(5)] dm
    show ?thesis by linarith
  next
    case False
    have a0: "0 \<le> d / of_nat N" using assms(1) by simp
    have "?q \<le> round_double min_normal"
      using False by (intro round_double_mono [OF a0]) simp
    then have qs: "?q \<le> min_normal" by (simp add: round_double_min_normal)
    have "(of_nat i :: rat) \<le> 2 ^ 51"
    proof -
      have "i \<le> 2 ^ 51" using assms(4,5) by simp
      then show ?thesis by (metis of_nat_le_iff of_nat_numeral of_nat_power)
    qed
    then have "?q * of_nat i \<le> min_normal * 2 ^ 51"
      using qs q0 min_normal_pos by (intro mult_mono) simp_all
    moreover have "0 \<le> ?q * of_nat i" using q0 by simp
    ultimately have "double_time d N i \<le> round_double (min_normal * 2 ^ 51)"
      unfolding double_time_def by (intro round_double_mono)
    then have "double_time d N i \<le> min_normal * 2 ^ 51"
      by (simp only: round_double_small_bound)
    with small_bound_finite show ?thesis by linarith
  qed
qed

lemma step_finite:
  assumes "0 < d" "is_double d" "1 \<le> N"
  shows "0 \<le> round_double (d / of_nat N) \<and> round_double (d / of_nat N) \<le> max_double"
proof -
  have rd: "round_double d = d" and dm: "d \<le> max_double"
    using assms(1,2) by (simp_all add: is_double_def)
  from step_bounds [OF assms(1) rd assms(3)] dm show ?thesis by linarith
qed

lemma round_double_of_nat:
  assumes "n < 2 ^ 53"
  shows "round_double (of_nat n) = of_nat n"
proof (cases "n = 0")
  case True
  then show ?thesis by simp
next
  case False
  have "int n < 2 ^ 53" using assms by (metis of_nat_less_iff of_nat_numeral of_nat_power)
  moreover have "0 < int n" using False by simp
  ultimately have "round_double (of_int (int n) * 2 ^ 1074 / subnormal_scale)
      = of_int (int n) * 2 ^ 1074 / subnormal_scale"
    by (intro round_double_exact)
  moreover have "(of_int (int n) :: rat) * 2 ^ 1074 / subnormal_scale = of_nat n"
    by (simp add: subnormal_scale_def)
  ultimately show ?thesis by simp
qed

lemma round_double_small:
  "round_double 2 = 2" "round_double 4 = 4" "round_double 6 = 6"
  using round_double_of_nat [of 2] round_double_of_nat [of 4] round_double_of_nat [of 6]
  by simp_all

lemma max_double_pos: "0 < max_double"
  by (simp add: max_double_def)

lemma js_round_finite:
  "0 \<le> round_double x \<Longrightarrow> round_double x \<le> max_double \<Longrightarrow> js_round x = Num (round_double x)"
  using max_double_pos by (simp add: js_round_def Let_def)

lemma round_double_subnormal:
  assumes "0 \<le> y" "y < 2 ^ 53"
  shows "round_double (y / subnormal_scale) = of_int (round_even y) / subnormal_scale"
proof -
  define x where "x = y / subnormal_scale"
  have x0: "0 \<le> x" using assms(1) by (simp add: x_def)
  have xs: "x * subnormal_scale = y" by (simp add: x_def)
  have "\<lfloor>y\<rfloor> < 2 ^ 53" using assms(2) by (simp add: floor_less_iff)
  have bl: "bitlen \<lfloor>y\<rfloor> \<le> 53"
  proof (cases "0 < \<lfloor>y\<rfloor>")
    case True
    show ?thesis
    proof (rule ccontr)
      assume "\<not> bitlen \<lfloor>y\<rfloor> \<le> 53"
      then have "53 \<le> nat (bitlen \<lfloor>y\<rfloor> - 1)" by simp
      then have "(2::int) ^ 53 \<le> 2 ^ nat (bitlen \<lfloor>y\<rfloor> - 1)" by (rule power_increasing) simp
      with bitlen_bounds [OF True] \<open>\<lfloor>y\<rfloor> < 2 ^ 53\<close> show False by linarith
    qed
  next
    case False
    then have "bitlen \<lfloor>y\<rfloor> = 0" by (simp add: bitlen_eq_zero_iff)
    then show ?thesis by simp
  qed
  have "ulp_shift x = nat (bitlen \<lfloor>y\<rfloor> - 53)" unfolding ulp_shift_def by (simp only: xs)
  with bl have "ulp_shift x = 0" by simp
  then have u: "ulp x = 1 / subnormal_scale" by (simp add: ulp_def)
  have "x / ulp x = x / (1 / subnormal_scale)" by (simp only: u)
  also have "\<dots> = y" by (simp add: x_def)
  finally have q: "x / ulp x = y" .
  have "round_pos x = of_int (round_even (x / ulp x)) * ulp x" by (simp only: round_pos_def)
  also have "\<dots> = of_int (round_even y) * ulp x" by (simp only: q)
  also have "\<dots> = of_int (round_even y) * (1 / subnormal_scale)" by (simp only: u)
  finally have "round_double x = of_int (round_even y) / subnormal_scale"
    using x0 by (simp add: round_double_nonneg_eq)
  then show ?thesis by (simp only: x_def)
qed

lemma underflow_step: "round_double (1 / (subnormal_scale * 3)) = 0"
proof -
  have "round_double ((1 / 3) / subnormal_scale) = of_int (round_even (1 / 3)) / subnormal_scale"
    by (rule round_double_subnormal) simp_all
  moreover have "\<lfloor>(1::rat) / 3\<rfloor> = 0" by (rule floor_unique) simp_all
  then have "round_even (1 / 3) = 0" by (simp add: round_even_def Let_def)
  ultimately show ?thesis by (simp add: ac_simps)
qed

lemma rounded_up_step: "round_double (3 / (subnormal_scale * 5)) = 1 / subnormal_scale"
proof -
  have "round_double ((3 / 5) / subnormal_scale) = of_int (round_even (3 / 5)) / subnormal_scale"
    by (rule round_double_subnormal) simp_all
  moreover have "\<lfloor>(3::rat) / 5\<rfloor> = 0" by (rule floor_unique) simp_all
  then have "round_even (3 / 5) = 1" by (simp add: round_even_def Let_def)
  ultimately show ?thesis by (simp add: ac_simps)
qed

lemma subnormal_values:
  "round_double (1 / subnormal_scale) = 1 / subnormal_scale"
  "round_double (2 / subnormal_scale) = 2 / subnormal_scale"
  "round_double (3 / subnormal_scale) = 3 / subnormal_scale"
  "round_double (4 / subnormal_scale) = 4 / subnormal_scale"
  using round_double_exact [of 1 0] round_double_exact [of 2 0]
    round_double_exact [of 3 0] round_double_exact [of 4 0]
  by simp_all

lemma subnormal_is_double:
  "is_double (1 / subnormal_scale)" "is_double (3 / subnormal_scale)"
  by (simp_all add: is_double_def subnormal_values)
     (simp_all add: subnormal_scale_def max_double_def)

section \<open>Frame times\<close>

lemma frame_time_double:
  assumes "0 < d" "is_double d" "1 \<le> N" "N \<le> 2 ^ 51" "i < N"
  shows "frame_time d N i = Num (double_time d N i)"
proof -
  have rd: "round_double d = d" using assms(2) by (simp add: is_double_def)
  from step_finite [OF assms(1-3)]
  have q: "js_round (d / of_nat N) = Num (round_double (d / of_nat N))"
    by (intro js_round_finite) simp_all
  have "0 \<le> double_time d N i" by (rule double_time_nonneg [OF assms(1) rd assms(3)])
  moreover have "double_time d N i \<le> max_double"
    by (rule double_time_finite [OF assms])
  ultimately have "js_round (round_double (d / of_nat N) * of_nat i) = Num (double_time d N i)"
    unfolding double_time_def by (rule js_round_finite)
  then show ?thesis by (simp add: frame_time_def q)
qed

lemma double_time_close:
  assumes "0 < d" "1 \<le> N" "min_normal \<le> d / of_nat N"
  shows "\<bar>double_time d N i - of_nat i * d / of_nat N\<bar> \<le> of_nat i * d / of_nat N * (3 / 2 ^ 53)"
proof (cases "i = 0")
  case True
  then show ?thesis by simp
next
  case False
  let ?a = "d / of_nat N"
  let ?q = "round_double ?a"
  let ?k = "of_nat i :: rat"
  let ?w = "?a * ?k"
  have k1: "1 \<le> ?k" using False by (simp add: Suc_le_eq)
  have a0: "0 < ?a" using assms(1,2) by simp
  have w0: "0 \<le> ?w" using a0 by (intro mult_nonneg_nonneg) simp_all
  have q: "min_normal \<le> ?q" by (rule normal_step(1) [OF assms])
  have qu: "?q \<le> ?a * (1 + 1 / 2 ^ 53)" by (rule round_double_upper [OF assms(3)])
  have ql: "?a * (1 - 1 / 2 ^ 53) \<le> ?q" by (rule round_double_lower [OF assms(3)])
  have "?q * 1 \<le> ?q * ?k" using q min_normal_pos k1 by (intro mult_left_mono) simp_all
  with q have x: "min_normal \<le> ?q * ?k" by simp
  have x0: "0 \<le> ?q * ?k" using x min_normal_pos by linarith
  have "double_time d N i \<le> ?q * ?k * (1 + 1 / 2 ^ 53)"
    unfolding double_time_def by (rule round_double_upper [OF x])
  also have "\<dots> \<le> (?a * (1 + 1 / 2 ^ 53)) * ?k * (1 + 1 / 2 ^ 53)"
    using qu k1 by (intro mult_right_mono) simp_all
  also have "\<dots> = ?w * ((1 + 1 / 2 ^ 53) * (1 + 1 / 2 ^ 53))" by simp
  finally have up: "double_time d N i \<le> ?w * ((1 + 1 / 2 ^ 53) * (1 + 1 / 2 ^ 53))" .
  have "?w * ((1 - 1 / 2 ^ 53) * (1 - 1 / 2 ^ 53)) = (?a * (1 - 1 / 2 ^ 53)) * ?k * (1 - 1 / 2 ^ 53)"
    by simp
  also have "\<dots> \<le> ?q * ?k * (1 - 1 / 2 ^ 53)"
    using ql k1 by (intro mult_right_mono) simp_all
  also have "\<dots> \<le> double_time d N i"
    unfolding double_time_def by (rule round_double_lower [OF x])
  finally have lo: "?w * ((1 - 1 / 2 ^ 53) * (1 - 1 / 2 ^ 53)) \<le> double_time d N i" .
  have c1: "?w * ((1 + 1 / 2 ^ 53) * (1 + 1 / 2 ^ 53)) \<le> ?w + ?w * (3 / 2 ^ 53)"
  proof -
    have "?w * ((1 + 1 / 2 ^ 53) * (1 + 1 / 2 ^ 53)) \<le> ?w * (1 + 3 / 2 ^ 53)"
      using w0 by (intro mult_left_mono) simp_all
    then show ?thesis by (simp add: algebra_simps)
  qed
  have c2: "?w - ?w * (3 / 2 ^ 53) \<le> ?w * ((1 - 1 / 2 ^ 53) * (1 - 1 / 2 ^ 53))"
  proof -
    have "?w * (1 - 3 / 2 ^ 53) \<le> ?w * ((1 - 1 / 2 ^ 53) * (1 - 1 / 2 ^ 53))"
      using w0 by (intro mult_left_mono) simp_all
    then show ?thesis by (simp add: algebra_simps)
  qed
  have "\<bar>double_time d N i - ?w\<bar> \<le> ?w * (3 / 2 ^ 53)"
    using up lo c1 c2 by linarith
  moreover have "?w = of_nat i * d / of_nat N" by simp
  ultimately show ?thesis by (simp only:)
qed

lemma sorted_double_times:
  assumes "0 < d" "round_double d = d" "1 \<le> N"
  shows "sorted (map (double_time d N) [0..<N])"
  using double_time_mono [OF assms]
  by (simp add: sorted_wrt_map sorted_wrt_iff_nth_less)

lemma strictly_sorted_double_times:
  assumes "0 < d" "round_double d = d" "1 \<le> N" "N \<le> 2 ^ 51" "min_normal \<le> d / of_nat N"
  shows "sorted_wrt (<) (map (double_time d N) [0..<N])"
  using double_time_strict [OF assms]
  by (simp add: sorted_wrt_map sorted_wrt_iff_nth_less)

lemma is_double_six: "is_double 6"
  by (simp add: is_double_def round_double_small max_double_def)

lemma double_time_six:
  "double_time 6 3 0 = 0" "double_time 6 3 (Suc 0) = 2" "double_time 6 3 2 = 4"
  by (simp_all add: double_time_def round_double_small)

lemma tiny_times: "double_time (1 / subnormal_scale) 3 i = 0"
  by (simp add: double_time_def underflow_step)

lemma short_times:
  "double_time (3 / subnormal_scale) 5 0 = 0"
  "double_time (3 / subnormal_scale) 5 1 = 1 / subnormal_scale"
  "double_time (3 / subnormal_scale) 5 (Suc 0) = 1 / subnormal_scale"
  "double_time (3 / subnormal_scale) 5 2 = 2 / subnormal_scale"
  "double_time (3 / subnormal_scale) 5 3 = 3 / subnormal_scale"
  "double_time (3 / subnormal_scale) 5 4 = 4 / subnormal_scale"
  by (simp_all add: double_time_def rounded_up_step subnormal_values)

section \<open>Properties of frame extraction\<close>

lemma frame_loop_all_seeks:
  "(\<And>j. i \<le> j \<Longrightarrow> j < n \<Longrightarrow> frame_time d n j = Num (tm j) \<and> seek_ok v (tm j)) \<Longrightarrow>
   frame_loop v d n i evs ps =
     (evs @ concat (map (\<lambda>j. [Seek (tm j), Capture (tm j), Progress (frame_progress n j)]) [i..<n]),
      Inr (ps @ map (\<lambda>j. frame_at v (tm j)) [i..<n]))"
proof (induction v d n i evs ps rule: frame_loop.induct)
  case (1 v d n i evs ps)
  show ?case
  proof (cases "i < n")
    case True
    then have ft: "frame_time d n i = Num (tm i)" and ok: "seek_ok v (tm i)"
      using "1.prems" [of i] by simp_all
    have step: "frame_loop v d n i evs ps =
        frame_loop v d n (Suc i)
          (evs @ [Seek (tm i), Capture (tm i), Progress (frame_progress n i)])
          (ps @ [frame_at v (tm i)])"
      using True ok by (subst frame_loop.simps) (simp add: ft)
    have ih: "frame_loop v d n (Suc i)
          (evs @ [Seek (tm i), Capture (tm i), Progress (frame_progress n i)])
          (ps @ [frame_at v (tm i)]) =
        ((evs @ [Seek (tm i), Capture (tm i), Progress (frame_progress n i)])
           @ concat (map (\<lambda>j. [Seek (tm j), Capture (tm j), Progress (frame_progress n j)])
                      [Suc i..<n]),
         Inr ((ps @ [frame_at v (tm i)]) @ map (\<lambda>j. frame_at v (tm j)) [Suc i..<n]))"
      using True ok ft "1.prems" by (intro "1.IH") simp_all
    show ?thesis
      using True by (simp add: step ih upt_conv_Cons)
  next
    case False
    then show ?thesis by (subst frame_loop.simps) simp
  qed
qed

lemma promise_all_frames:
  "\<forall>p \<in> set ps. p \<noteq> None \<Longrightarrow> \<exists>fs. promise_all ps = Inr fs \<and> map Some fs = ps"
proof (induction ps)
  case Nil
  then show ?case by simp
next
  case (Cons p ps)
  then obtain f where p: "p = Some f" by auto
  from Cons obtain fs where "promise_all ps = Inr fs" "map Some fs = ps" by auto
  then show ?case by (simp add: p)
qed

lemma seek_times_rounds:
  "seek_times (concat (map (\<lambda>j. [Seek (f j), Capture (f j), Progress (g j)]) js)) = map f js"
  by (induction js) (simp_all add: seek_times_def)

lemma capture_times_rounds:
  "capture_times (concat (map (\<lambda>j. [Seek (f j), Capture (f j), Progress (g j)]) js)) = map f js"
  by (induction js) (simp_all add: capture_times_def)

lemma extract_frames_valid:
  assumes "loads v" "duration v = Num d" "0 < d" "is_double d" "N \<le> 2 ^ 51"
    and seeks: "\<forall>i<N. seek_ok v (double_time d N i)"
    and reads: "\<forall>i<N. frame_at v (double_time d N i) \<noteq> None"
  shows "\<exists>frames. extract_frames v N =
           (concat (map (\<lambda>j. [Seek (double_time d N j), Capture (double_time d N j),
                                Progress (frame_progress N j)]) [0..<N]),
            Inr frames)
         \<and> map Some frames = map (\<lambda>i. frame_at v (double_time d N i)) [0..<N]"
proof -
  have ft: "frame_time d N j = Num (double_time d N j) \<and> seek_ok v (double_time d N j)"
    if "j < N" for j
  proof -
    from that have "1 \<le> N" by simp
    from frame_time_double [OF assms(3,4) this assms(5) that] seeks that show ?thesis by simp
  qed
  have loop: "frame_loop v d N 0 [] [] =
     (concat (map (\<lambda>j. [Seek (double_time d N j), Capture (double_time d N j),
                          Progress (frame_progress N j)]) [0..<N]),
      Inr (map (\<lambda>j. frame_at v (double_time d N j)) [0..<N]))"
    using ft by (subst frame_loop_all_seeks [where tm = "double_time d N"]) simp_all
  have "\<forall>p \<in> set (map (\<lambda>j. frame_at v (double_time d N j)) [0..<N]). p \<noteq> None"
    using reads by simp
  from promise_all_frames [OF this] obtain fs where
    fs: "promise_all (map (\<lambda>j. frame_at v (double_time d N j)) [0..<N]) = Inr fs"
        "map Some fs = map (\<lambda>j. frame_at v (double_time d N j)) [0..<N]"
    by blast
  show ?thesis
    using assms(1-3) fs by (simp add: extract_frames_def loop)
qed

lemma extract_frames_invalid:
  assumes "\<forall>d. duration v = Num d \<longrightarrow> d \<le> 0"
  shows "extract_frames v N = ([], Inl (if loads v then InvalidDuration else LoadError))"
  using assms by (cases "duration v") (simp_all add: extract_frames_def)

lemma processVideoToFrames_parts:
  "fst (processVideoToFrames v src N s) = fst (extract_frames v N)"
  "fst (snd (processVideoToFrames v src N s)) = snd (extract_frames v N)"
  by (cases src; simp add: processVideoToFrames_def createObjectURL_def split: prod.splits)+

lemma processVideoToFrames_store:
  "snd (snd (processVideoToFrames v (File f) N s)) =
     \<lparr>next_url = Suc (next_url s), live_urls = removeAll (next_url s) (live_urls s)\<rparr>"
  "snd (snd (processVideoToFrames v (Url u) N s)) = s"
  by (simp_all add: processVideoToFrames_def createObjectURL_def revokeObjectURL_def
        split: prod.splits)

lemma upt3: "[0..<3] = [0, 1, 2]"
  by (simp add: upt_rec)

lemma upt5: "[0..<5] = [0, 1, 2, 3, 4]"
  by (simp add: upt_rec)

text \<open>
  Claim C6 says that the frames are captured at the times \<open>i * duration / N\<close>, strictly
  increasing and within \<open>[0, duration)\<close>. The times are computed in binary64. For the
  smallest positive duration \<open>2 ^ - 1074\<close>, a value that a number holds, and three frames,
  the quotient rounds to 0: three frames are returned, all captured at time 0, so the
  times are not strictly increasing. For the duration \<open>3 * 2 ^ - 1074\<close> and five frames
  the quotient rounds up, and the last time sought lies beyond the duration.
\<close>

theorem strictly_increasing_counterexample:
  "is_double (1 / subnormal_scale) \<and> 0 < 1 / subnormal_scale
   \<and> snd (extract_frames tiny_video 3) = Inr [''AAAA'', ''AAAA'', ''AAAA'']
   \<and> seek_times (fst (processVideoToFrames tiny_video (Url ''clip'') 3 empty_store)) = [0, 0, 0]
   \<and> \<not> sorted_wrt (<)
         (seek_times (fst (processVideoToFrames tiny_video (Url ''clip'') 3 empty_store)))
   \<and> is_double (3 / subnormal_scale)
   \<and> seek_times (fst (processVideoToFrames short_video (Url ''clip'') 5 empty_store))
       = [0, 1 / subnormal_scale, 2 / subnormal_scale, 3 / subnormal_scale, 4 / subnormal_scale]
   \<and> 3 / subnormal_scale < 4 / subnormal_scale"
proof -
  have d1: "(0::rat) < 1 / subnormal_scale" and d3: "(0::rat) < 3 / subnormal_scale" by simp_all
  have tv: "loads tiny_video" "duration tiny_video = Num (1 / subnormal_scale)"
    "\<forall>i<3. seek_ok tiny_video (double_time (1 / subnormal_scale) 3 i)"
    "\<forall>i<3. frame_at tiny_video (double_time (1 / subnormal_scale) 3 i) \<noteq> None"
    by (simp_all add: tiny_video_def sample_video_def)
  have sv: "loads short_video" "duration short_video = Num (3 / subnormal_scale)"
    "\<forall>i<5. seek_ok short_video (double_time (3 / subnormal_scale) 5 i)"
    "\<forall>i<5. frame_at short_video (double_time (3 / subnormal_scale) 5 i) \<noteq> None"
    by (simp_all add: short_video_def sample_video_def)
  from extract_frames_valid [OF tv(1,2) d1 subnormal_is_double(1) _ tv(3,4)]
  obtain frames where
    e1: "extract_frames tiny_video 3 =
           (concat (map (\<lambda>j. [Seek (double_time (1 / subnormal_scale) 3 j),
                                Capture (double_time (1 / subnormal_scale) 3 j),
                                Progress (frame_progress 3 j)]) [0..<3]),
            Inr frames)"
    and f1: "map Some frames
        = map (\<lambda>i. frame_at tiny_video (double_time (1 / subnormal_scale) 3 i)) [0..<3]"
    by auto
  have fr: "map Some frames = map Some [''AAAA'', ''AAAA'', ''AAAA'']"
    by (simp add: f1 tiny_times upt3 tiny_video_def sample_video_def)
  then have frames: "frames = [''AAAA'', ''AAAA'', ''AAAA'']"
    by (simp only: inj_map_eq_map [OF inj_Some])
  have s1: "seek_times (fst (processVideoToFrames tiny_video (Url ''clip'') 3 empty_store))
      = [0, 0, 0]"
    by (simp add: processVideoToFrames_parts e1 seek_times_def tiny_times upt3)
  from extract_frames_valid [OF sv(1,2) d3 subnormal_is_double(2) _ sv(3,4)]
  obtain frames' where
    e2: "extract_frames short_video 5 =
           (concat (map (\<lambda>j. [Seek (double_time (3 / subnormal_scale) 5 j),
                                Capture (double_time (3 / subnormal_scale) 5 j),
                                Progress (frame_progress 5 j)]) [0..<5]),
            Inr frames')"
    by auto
  have s2: "seek_times (fst (processVideoToFrames short_video (Url ''clip'') 5 empty_store))
       = [0, 1 / subnormal_scale, 2 / subnormal_scale, 3 / subnormal_scale, 4 / subnormal_scale]"
    by (simp add: processVideoToFrames_parts e2 seek_times_def upt5 short_times)
  have lt: "(3::rat) / subnormal_scale < 4 / subnormal_scale"
    by (simp add: divide_strict_right_mono)
  show ?thesis
    using subnormal_is_double d1 s1 s2 lt by (simp add: e1 frames)
qed

text \<open>
  Claim C6, amended. For a video whose metadata loads with a finite duration \<open>d > 0\<close>
  (a binary64 value), a frame count \<open>N\<close> with \<open>1 \<le> N \<le> 2 ^ 51\<close>, and with every
  seek completing and every frame read yielding a blob, frame extraction returns exactly
  \<open>N\<close> frames: the frames read at the times that binary64 arithmetic gives for
  \<open>(d / N) * i\<close>, \<open>i = 0, \<dots>, N - 1\<close>, in this order. These are the times sought and
  captured; they are non-negative and non-decreasing. When \<open>d / N\<close> is at least the
  smallest normal number \<open>2 ^ - 1022\<close>, they are strictly increasing, lie in
  \<open>[0, d)\<close>, and differ from \<open>i * d / N\<close> by at most the fraction \<open>3 / 2 ^ 53\<close> of it.
\<close>

theorem frames_of_valid_video:
  assumes "loads v" "duration v = Num d" "0 < d" "is_double d" "1 \<le> N" "N \<le> 2 ^ 51"
    and "\<forall>i<N. seek_ok v (double_time d N i)"
    and "\<forall>i<N. frame_at v (double_time d N i) \<noteq> None"
  shows "\<exists>frames evs s'.
           processVideoToFrames v src N s = (evs, Inr frames, s')
           \<and> length frames = N
           \<and> map Some frames = map (\<lambda>i. frame_at v (double_time d N i)) [0..<N]
           \<and> seek_times evs = map (double_time d N) [0..<N]
           \<and> capture_times evs = seek_times evs
           \<and> sorted (seek_times evs)
           \<and> (\<forall>t \<in> set (seek_times evs). 0 \<le> t)
           \<and> (min_normal \<le> d / of_nat N \<longrightarrow>
                sorted_wrt (<) (seek_times evs)
                \<and> (\<forall>t \<in> set (seek_times evs). t < d)
                \<and> (\<forall>i<N. \<bar>double_time d N i - of_nat i * d / of_nat N\<bar>
                            \<le> of_nat i * d / of_nat N * (3 / 2 ^ 53)))"
proof -
  have rd: "round_double d = d" using assms(4) by (simp add: is_double_def)
  from extract_frames_valid [OF assms(1-4,6-8)] obtain frames where
    ex: "extract_frames v N =
           (concat (map (\<lambda>j. [Seek (double_time d N j), Capture (double_time d N j),
                                Progress (frame_progress N j)]) [0..<N]),
            Inr frames)"
    and fr: "map Some frames = map (\<lambda>i. frame_at v (double_time d N i)) [0..<N]"
    by blast
  define evs where "evs = fst (extract_frames v N)"
  have st: "seek_times evs = map (double_time d N) [0..<N]"
    and ct: "capture_times evs = map (double_time d N) [0..<N]"
    by (simp_all add: evs_def ex seek_times_rounds capture_times_rounds)
  have len: "length frames = N"
    using arg_cong [OF fr, of length] by simp
  have whole: "processVideoToFrames v src N s =
      (evs, Inr frames, snd (snd (processVideoToFrames v src N s)))"
    using processVideoToFrames_parts [of v src N s]
    by (simp add: evs_def ex prod_eq_iff)
  have ct': "capture_times evs = seek_times evs"
    by (simp add: st ct)
  have srt: "sorted (seek_times evs)"
    using sorted_double_times [OF assms(3) rd assms(5)] by (simp only: st)
  have nn: "\<forall>t \<in> set (seek_times evs). 0 \<le> t"
    using double_time_nonneg [OF assms(3) rd assms(5)] by (auto simp: st)
  have normal: "sorted_wrt (<) (seek_times evs)
       \<and> (\<forall>t \<in> set (seek_times evs). t < d)
       \<and> (\<forall>i<N. \<bar>double_time d N i - of_nat i * d / of_nat N\<bar>
                   \<le> of_nat i * d / of_nat N * (3 / 2 ^ 53))"
    if n: "min_normal \<le> d / of_nat N"
  proof (intro conjI)
    show "sorted_wrt (<) (seek_times evs)"
      using strictly_sorted_double_times [OF assms(3) rd assms(5,6) n] by (simp only: st)
    show "\<forall>t \<in> set (seek_times evs). t < d"
      using double_time_below_duration [OF assms(3) rd assms(5,6) n] by (auto simp: st)
    show "\<forall>i<N. \<bar>double_time d N i - of_nat i * d / of_nat N\<bar>
                   \<le> of_nat i * d / of_nat N * (3 / 2 ^ 53)"
      using double_time_close [OF assms(3,5) n] by blast
  qed
  show ?thesis
  proof (intro exI conjI)
    show "processVideoToFrames v src N s =
      (evs, Inr frames, snd (snd (processVideoToFrames v src N s)))" by (rule whole)
    show "length frames = N" by (rule len)
    show "map Some frames = map (\<lambda>i. frame_at v (double_time d N i)) [0..<N]" by (rule fr)
    show "seek_times evs = map (double_time d N) [0..<N]" by (rule st)
    show "capture_times evs = seek_times evs" by (rule ct')
    show "sorted (seek_times evs)" by (rule srt)
    show "\<forall>t \<in> set (seek_times evs). 0 \<le> t" by (rule nn)
    show "min_normal \<le> d / of_nat N \<longrightarrow>
        sorted_wrt (<) (seek_times evs)
        \<and> (\<forall>t \<in> set (seek_times evs). t < d)
        \<and> (\<forall>i<N. \<bar>double_time d N i - of_nat i * d / of_nat N\<bar>
                    \<le> of_nat i * d / of_nat N * (3 / 2 ^ 53))"
      using normal by blast
  qed
qed

theorem frames_of_valid_video_witness:
  "loads sample_video \<and> duration sample_video = Num 6 \<and> (0::rat) < 6 \<and> is_double 6
   \<and> (1::nat) \<le> 3 \<and> (3::nat) \<le> 2 ^ 51 \<and> min_normal \<le> 6 / of_nat 3
   \<and> (\<exists>frames evs s'.
        processVideoToFrames sample_video (File ''clip.mp4'') 3 empty_store = (evs, Inr frames, s')
        \<and> length frames = 3
        \<and> map Some frames = [Some ''AAAA'', Some ''BBBB'', Some ''CCCC'']
        \<and> seek_times evs = [0, 2, 4]
        \<and> sorted_wrt (<) (seek_times evs))"
proof -
  have h: "loads sample_video" "duration sample_video = Num 6" "(0::rat) < 6" "is_double 6"
    "(1::nat) \<le> 3" "(3::nat) \<le> 2 ^ 51"
    by (simp_all add: sample_video_def is_double_six)
  have s: "\<forall>i<3. seek_ok sample_video (double_time 6 3 i)"
    and r: "\<forall>i<3. frame_at sample_video (double_time 6 3 i) \<noteq> None"
    by (simp_all add: sample_video_def)
  have n: "min_normal \<le> 6 / of_nat 3"
    by (simp add: min_normal_def subnormal_scale_def)
  have tms: "map (double_time 6 3) [0..<3] = [0, 2, 4]"
    by (simp add: upt3 double_time_six)
  have frs: "map (\<lambda>i. frame_at sample_video (double_time 6 3 i)) [0..<3]
      = [Some ''AAAA'', Some ''BBBB'', Some ''CCCC'']"
    by (simp add: upt3 double_time_six sample_video_def)
  from frames_of_valid_video [OF h s r, of "File ''clip.mp4''" empty_store] n
  obtain frames evs s' where
    "processVideoToFrames sample_video (File ''clip.mp4'') 3 empty_store = (evs, Inr frames, s')"
    "length frames = 3"
    "map Some frames = map (\<lambda>i. frame_at sample_video (double_time 6 3 i)) [0..<3]"
    "seek_times evs = map (double_time 6 3) [0..<3]"
    "sorted_wrt (<) (seek_times evs)"
    by blast
  note f = this [unfolded tms frs]
  have ex: "\<exists>frames evs s'.
        processVideoToFrames sample_video (File ''clip.mp4'') 3 empty_store = (evs, Inr frames, s')
        \<and> length frames = 3
        \<and> map Some frames = [Some ''AAAA'', Some ''BBBB'', Some ''CCCC'']
        \<and> seek_times evs = [0, 2, 4]
        \<and> sorted_wrt (<) (seek_times evs)"
    by (intro exI conjI) (rule f)+
  show ?thesis by (intro conjI h n ex)
qed

text \<open>
  Claim C7. When the reported duration is not a finite positive number (\<open>NaN\<close>, an
  infinity, zero or negative), frame extraction ends with an error, the invalid-duration
  error once the metadata has loaded, and no seek, capture or progress event has happened.
  For a local file the object URL allocated at the start is not live afterwards, whatever
  the outcome, and no run leaves a URL live that was not live before.
\<close>

theorem invalid_duration_fails_cleanly:
  "((\<forall>d. duration v = Num d \<longrightarrow> d \<le> 0) \<longrightarrow>
      (\<exists>e. fst (snd (processVideoToFrames v src N s)) = Inl e
            \<and> (loads v \<longrightarrow> e = InvalidDuration))
      \<and> fst (processVideoToFrames v src N s) = [])
   \<and> fst (createObjectURL s) \<notin> set (live_urls (snd (snd (processVideoToFrames v (File f) N s))))
   \<and> set (live_urls (snd (snd (processVideoToFrames v src N s)))) \<subseteq> set (live_urls s)"
proof -
  have a: "fst (createObjectURL s) \<notin> set (live_urls (snd (snd (processVideoToFrames v (File f) N s))))"
    by (simp add: processVideoToFrames_store createObjectURL_def)
  have b: "set (live_urls (snd (snd (processVideoToFrames v src N s)))) \<subseteq> set (live_urls s)"
    by (cases src) (auto simp: processVideoToFrames_store)
  show ?thesis
    using a b by (simp add: processVideoToFrames_parts extract_frames_invalid)
qed

theorem invalid_duration_fails_cleanly_witness:
  "duration (sample_video\<lparr>duration := NaN\<rparr>) = NaN
   \<and> processVideoToFrames (sample_video\<lparr>duration := NaN\<rparr>) (File ''clip.mp4'') 3
        \<lparr>next_url = 4, live_urls = [1, 3]\<rparr>
      = ([], Inl InvalidDuration, \<lparr>next_url = 5, live_urls = [1, 3]\<rparr>)
   \<and> fst (snd (processVideoToFrames (sample_video\<lparr>duration := Num 0\<rparr>) (Url ''u'') 3 empty_store))
      = Inl InvalidDuration"
  using invalid_duration_fails_cleanly
          [of "sample_video\<lparr>duration := NaN\<rparr>" "File ''clip.mp4''" 3
              "\<lparr>next_url = 4, live_urls = [1, 3]\<rparr>" "''clip.mp4''"]
  by (simp add: sample_video_def processVideoToFrames_def createObjectURL_def
        revokeObjectURL_def extract_frames_def empty_store_def)

section \<open>Properties of session resolution\<close>

lemma backfill_applied:
  "doc_coins (foldl apply_write d (backfill now d))
     = Some (case doc_coins d of None \<Rightarrow> 100 | Some c \<Rightarrow> c)"
  "doc_isPremium (foldl apply_write d (backfill now d))
     = Some (case doc_isPremium d of None \<Rightarrow> False | Some b \<Rightarrow> b)"
  by (cases "doc_coins d"; cases "doc_isPremium d"; simp add: backfill_def)+

lemma resolve_existing:
  assumes "users w (au_uid cu) = Some d"
    and "\<not> fails GetDoc" "\<not> fails UpdateDoc" "\<not> fails GetDocAgain"
  shows "onAuthStateChanged fails now (Some cu) w =
     ([StorageRemove, DocRead (au_uid cu), DocUpdate (au_uid cu) (backfill now d),
       DocRead (au_uid cu),
       SetUser (signedInProfile cu (Some (foldl apply_write d (backfill now d))))],
      None,
      w\<lparr>guestProfile := None,
        users := (users w)(au_uid cu \<mapsto> foldl apply_write d (backfill now d)),
        user := Some (signedInProfile cu (Some (foldl apply_write d (backfill now d))))\<rparr>)"
  using assms by (simp add: onAuthStateChanged_def getDoc_def updateDoc_def Let_def)

lemma resolve_new:
  assumes "users w (au_uid cu) = None" and "\<not> fails GetDoc" "\<not> fails SetDoc"
  shows "onAuthStateChanged fails now (Some cu) w =
     ([StorageRemove, DocRead (au_uid cu), DocSet (au_uid cu) (newUserData now cu),
       SetUser (signedInProfile cu (Some (newUserData now cu)))],
      None,
      w\<lparr>guestProfile := None,
        users := (users w)(au_uid cu \<mapsto> newUserData now cu),
        user := Some (signedInProfile cu (Some (newUserData now cu)))\<rparr>)"
  using assms by (simp add: onAuthStateChanged_def getDoc_def setDoc_def Let_def)

lemma resolve_failed:
  assumes "fails GetDoc
     \<or> (users w (au_uid cu) \<noteq> None \<and> (fails UpdateDoc \<or> fails GetDocAgain))
     \<or> (users w (au_uid cu) = None \<and> fails SetDoc)"
  shows "\<exists>evs w'. onAuthStateChanged fails now (Some cu) w = (evs, Some RemoteError, w')
     \<and> user w' = user w \<and> guestProfile w' = None
     \<and> (\<forall>p. SetUser p \<notin> set evs) \<and> (\<forall>p. StorageSet p \<notin> set evs)"
  using assms
  by (cases "users w (au_uid cu)")
     (auto simp: onAuthStateChanged_def getDoc_def updateDoc_def setDoc_def Let_def)

text \<open>
  Claim C3 says that a failed remote call during session resolution leaves a usable guest
  session. At application start (no current user yet), with a signed-in identity and a
  failing first read, the run ends with the error, no current user and no stored guest
  profile.
\<close>

theorem guest_fallback_counterexample:
  "fst (snd (onAuthStateChanged getDoc_fails 9 (Some alice) starting_state)) = Some RemoteError
   \<and> user (snd (snd (onAuthStateChanged getDoc_fails 9 (Some alice) starting_state))) = None
   \<and> guestProfile (snd (snd (onAuthStateChanged getDoc_fails 9 (Some alice) starting_state))) = None"
  by (simp add: onAuthStateChanged_def getDoc_def starting_state_def alice_def Let_def)

text \<open>
  Claim C3, amended. When a remote call of a session-resolution run for a signed-in
  identity fails (the first read, the backfill update or the second read of an existing
  document, or the creation of a missing one), the run ends there with the error: the
  stored guest profile has been removed, no profile is set, so the current user stays what
  it was before the run, and no guest profile is created or stored.
\<close>

theorem resolution_stops_at_remote_failure:
  assumes "fails GetDoc
     \<or> (users w (au_uid cu) \<noteq> None \<and> (fails UpdateDoc \<or> fails GetDocAgain))
     \<or> (users w (au_uid cu) = None \<and> fails SetDoc)"
  shows "\<exists>evs w'. onAuthStateChanged fails now (Some cu) w = (evs, Some RemoteError, w')
     \<and> user w' = user w \<and> guestProfile w' = None
     \<and> (\<forall>p. SetUser p \<notin> set evs) \<and> (\<forall>p. StorageSet p \<notin> set evs)"
  using assms by (rule resolve_failed)

theorem resolution_stops_at_remote_failure_witness:
  "getDoc_fails GetDoc
   \<and> (\<exists>evs w'. onAuthStateChanged getDoc_fails 9 (Some alice) guest_session
                  = (evs, Some RemoteError, w')
        \<and> user w' = Some (guest_with 7) \<and> guestProfile w' = None)"
  using resolution_stops_at_remote_failure [of getDoc_fails guest_session alice 9]
  by (simp add: guest_session_def) blast

text \<open>
  Claim C4. When the remote document exists and the remote calls succeed, session
  resolution writes \<open>coins = 100\<close> for a missing \<open>coins\<close> field and
  \<open>isPremium = false\<close> for a missing \<open>isPremium\<close> field (fields that are present
  keep their values), the update is issued before the profile is set, and the profile set
  carries the values of the updated document.
\<close>

theorem missing_fields_backfilled:
  assumes "users w (au_uid cu) = Some d"
    and "\<not> fails GetDoc" "\<not> fails UpdateDoc" "\<not> fails GetDocAgain"
  shows "\<exists>d' p w'.
      onAuthStateChanged fails now (Some cu) w =
        ([StorageRemove, DocRead (au_uid cu), DocUpdate (au_uid cu) (backfill now d),
          DocRead (au_uid cu), SetUser p], None, w')
      \<and> (doc_coins d = None \<longrightarrow> SetCoins 100 \<in> set (backfill now d))
      \<and> (doc_isPremium d = None \<longrightarrow> SetIsPremium False \<in> set (backfill now d))
      \<and> users w' (au_uid cu) = Some d'
      \<and> doc_coins d' = Some (case doc_coins d of None \<Rightarrow> 100 | Some c \<Rightarrow> c)
      \<and> doc_isPremium d' = Some (case doc_isPremium d of None \<Rightarrow> False | Some b \<Rightarrow> b)
      \<and> user w' = Some p
      \<and> coins p = doc_coins d' \<and> isPremium p = doc_isPremium d'"
proof (intro exI conjI)
  show "onAuthStateChanged fails now (Some cu) w =
     ([StorageRemove, DocRead (au_uid cu), DocUpdate (au_uid cu) (backfill now d),
       DocRead (au_uid cu),
       SetUser (signedInProfile cu (Some (foldl apply_write d (backfill now d))))],
      None,
      w\<lparr>guestProfile := None,
        users := (users w)(au_uid cu \<mapsto> foldl apply_write d (backfill now d)),
        user := Some (signedInProfile cu (Some (foldl apply_write d (backfill now d))))\<rparr>)"
    by (rule resolve_existing [OF assms])
  show "doc_coins d = None \<longrightarrow> SetCoins 100 \<in> set (backfill now d)"
    by (simp add: backfill_def)
  show "doc_isPremium d = None \<longrightarrow> SetIsPremium False \<in> set (backfill now d)"
    by (simp add: backfill_def)
  show "users (w\<lparr>guestProfile := None,
        users := (users w)(au_uid cu \<mapsto> foldl apply_write d (backfill now d)),
        user := Some (signedInProfile cu (Some (foldl apply_write d (backfill now d))))\<rparr>)
        (au_uid cu) = Some (foldl apply_write d (backfill now d))"
    by simp
  show "doc_coins (foldl apply_write d (backfill now d))
      = Some (case doc_coins d of None \<Rightarrow> 100 | Some c \<Rightarrow> c)"
    by (rule backfill_applied)
  show "doc_isPremium (foldl apply_write d (backfill now d))
      = Some (case doc_isPremium d of None \<Rightarrow> False | Some b \<Rightarrow> b)"
    by (rule backfill_applied)
  show "user (w\<lparr>guestProfile := None,
        users := (users w)(au_uid cu \<mapsto> foldl apply_write d (backfill now d)),
        user := Some (signedInProfile cu (Some (foldl apply_write d (backfill now d))))\<rparr>)
      = Some (signedInProfile cu (Some (foldl apply_write d (backfill now d))))"
    by simp
  show "coins (signedInProfile cu (Some (foldl apply_write d (backfill now d))))
      = doc_coins (foldl apply_write d (backfill now d))"
    by (simp add: signedInProfile_def)
  show "isPremium (signedInProfile cu (Some (foldl apply_write d (backfill now d))))
      = doc_isPremium (foldl apply_write d (backfill now d))"
    by (simp add: signedInProfile_def)
qed

theorem missing_fields_backfilled_witness:
  "users guest_session (au_uid alice) = Some legacy_doc
   \<and> \<not> all_ok GetDoc \<and> \<not> all_ok UpdateDoc \<and> \<not> all_ok GetDocAgain
   \<and> doc_coins legacy_doc = None \<and> doc_isPremium legacy_doc = None
   \<and> (\<exists>d' p w'.
        snd (onAuthStateChanged all_ok 9 (Some alice) guest_session) = (None, w')
        \<and> users w' ''u1'' = Some d' \<and> doc_coins d' = Some 100 \<and> doc_isPremium d' = Some False
        \<and> user w' = Some p \<and> coins p = Some 100 \<and> isPremium p = Some False)"
  using missing_fields_backfilled [of guest_session alice legacy_doc all_ok 9]
  by (simp add: guest_session_def alice_def legacy_doc_def all_ok_def) (elim exE conjE, simp)

text \<open>
  Claim C5. When a session is resolved for a signed-in identity and the remote calls
  succeed, the stored guest profile is removed, the profile set is not a guest profile, and
  its coin balance is the value in the remote document, or 100 when the document is new or
  has no \<open>coins\<close> field. The profile is the same whatever the current user and the
  stored guest profile were before, so no guest balance is carried over.
\<close>

theorem sign_in_discards_guest_balance:
  assumes "\<not> fails GetDoc"
    and "users w (au_uid cu) \<noteq> None \<longrightarrow> \<not> fails UpdateDoc \<and> \<not> fails GetDocAgain"
    and "users w (au_uid cu) = None \<longrightarrow> \<not> fails SetDoc"
  shows "\<exists>evs p w'.
      onAuthStateChanged fails now (Some cu) w = (evs, None, w')
      \<and> StorageRemove \<in> set evs \<and> guestProfile w' = None
      \<and> user w' = Some p \<and> \<not> isGuest p \<and> uid p = au_uid cu
      \<and> coins p = Some (case users w (au_uid cu) of
                          None \<Rightarrow> 100
                        | Some d \<Rightarrow> (case doc_coins d of None \<Rightarrow> 100 | Some c \<Rightarrow> c))
      \<and> user (snd (snd (onAuthStateChanged fails now (Some cu)
                          (w\<lparr>user := g, guestProfile := g'\<rparr>)))) = Some p"
proof (cases "users w (au_uid cu)")
  case None
  then have nf: "\<not> fails SetDoc" using assms(3) by simp
  have none': "users (w\<lparr>user := g, guestProfile := g'\<rparr>) (au_uid cu) = None"
    using None by simp
  show ?thesis
    by (simp add: resolve_new [OF None assms(1) nf] resolve_new [OF none' assms(1) nf]
          None signedInProfile_def newUserData_def)
next
  case (Some d)
  then have nf: "\<not> fails UpdateDoc" "\<not> fails GetDocAgain" using assms(2) by simp_all
  have some': "users (w\<lparr>user := g, guestProfile := g'\<rparr>) (au_uid cu) = Some d"
    using Some by simp
  show ?thesis
    by (simp add: resolve_existing [OF Some assms(1) nf] resolve_existing [OF some' assms(1) nf]
          Some signedInProfile_def backfill_applied)
qed

theorem sign_in_discards_guest_balance_witness:
  "\<not> all_ok GetDoc
   \<and> users guest_session (au_uid alice) \<noteq> None
   \<and> \<not> all_ok UpdateDoc \<and> \<not> all_ok GetDocAgain
   \<and> user guest_session = Some (guest_with 7)
   \<and> (\<exists>evs p w'.
        onAuthStateChanged all_ok 9 (Some alice) guest_session = (evs, None, w')
        \<and> guestProfile w' = None \<and> user w' = Some p \<and> \<not> isGuest p \<and> coins p = Some 100
        \<and> user (snd (snd (onAuthStateChanged all_ok 9 (Some alice)
                     (guest_session\<lparr>user := Some (guest_with 3),
                                    guestProfile := Some (guest_with 3)\<rparr>)))) = Some p)"
  using sign_in_discards_guest_balance
          [of all_ok guest_session alice 9 "Some (guest_with 3)" "Some (guest_with 3)"]
  by (simp add: guest_session_def alice_def legacy_doc_def all_ok_def) (elim exE conjE, simp)

section \<open>Properties of the paid panels\<close>

lemma debit_guest:
  "user w = Some u \<Longrightarrow> isGuest u \<Longrightarrow>
   debit cost fail u w =
     ([SetUser (u\<lparr>coins := Some (coinsOrZero u - cost)\<rparr>),
       StorageSet (u\<lparr>coins := Some (coinsOrZero u - cost)\<rparr>)],
      Completed,
      w\<lparr>user := Some (u\<lparr>coins := Some (coinsOrZero u - cost)\<rparr>),
        guestProfile := Some (u\<lparr>coins := Some (coinsOrZero u - cost)\<rparr>)\<rparr>)"
  by (simp add: debit_def handleCoinsUpdate_def Let_def)

lemma debit_signed_in:
  "user w = Some u \<Longrightarrow> \<not> isGuest u \<Longrightarrow> \<not> fail \<Longrightarrow> users w (uid u) = Some d \<Longrightarrow>
   debit cost fail u w =
     ([DocUpdate (uid u) [IncrementCoins (- cost)],
       SetUser (u\<lparr>coins := Some (coinsOrZero u - cost)\<rparr>)],
      Completed,
      w\<lparr>users := (users w)(uid u \<mapsto> apply_write d (IncrementCoins (- cost))),
        user := Some (u\<lparr>coins := Some (coinsOrZero u - cost)\<rparr>)\<rparr>)"
  by (simp add: debit_def handleCoinsUpdate_def updateDoc_def Let_def)

lemma debit_rejected:
  "\<not> isGuest u \<Longrightarrow> fail \<or> users w (uid u) = None \<Longrightarrow>
   debit cost fail u w = ([DocUpdate (uid u) [IncrementCoins (- cost)]], Failed RemoteError, w)"
  by (auto simp: debit_def updateDoc_def Let_def)

lemma not_enough_coins:
  "\<not> premiumOf (Some u) \<Longrightarrow> coinsOrZero u < a \<Longrightarrow> \<not> hasEnoughCoins a (Some u)"
  by (simp add: hasEnoughCoins_def)

lemma premium_has_enough:
  "premiumOf (Some u) \<Longrightarrow> hasEnoughCoins a (Some u)"
  by (simp add: hasEnoughCoins_def)

lemma image_rejected:
  "user w = Some u \<Longrightarrow> \<not> premiumOf (user w) \<Longrightarrow> coinsOrZero u < a \<Longrightarrow>
   imageSubmit a prompt loading gen fail w
     = ([], if blank prompt \<or> loading then Ignored else InsufficientCoins, w)"
  by (simp add: imageSubmit_def not_enough_coins)

lemma video_rejected:
  "user w = Some u \<Longrightarrow> \<not> premiumOf (user w) \<Longrightarrow> coinsOrZero u < a \<Longrightarrow>
   videoSubmit a p video audio fail w = ([], Ignored, w)"
  by (simp add: videoSubmit_def isGenerateDisabled_def not_enough_coins)

lemma image_premium:
  "user w = Some u \<Longrightarrow> premiumOf (user w) \<Longrightarrow> \<not> blank prompt \<Longrightarrow> \<not> loading \<Longrightarrow>
   imageSubmit a prompt loading gen fail w
     = ([GenerateCall],
        (case gen of GenSuccess \<Rightarrow> Completed | GenFailure \<Rightarrow> Failed GenerationError
                   | GenPending \<Rightarrow> StillLoading), w)"
  by (cases gen) (simp_all add: imageSubmit_def premium_has_enough)

lemma video_premium:
  "user w = Some u \<Longrightarrow> premiumOf (user w) \<Longrightarrow> panelReady p \<Longrightarrow>
   videoSubmit a p video audio fail w
     = ([GenerateCall],
        (case promise_all2 video audio of GenSuccess \<Rightarrow> Completed
           | GenFailure \<Rightarrow> Failed GenerationError | GenPending \<Rightarrow> StillLoading), w)"
  by (cases "promise_all2 video audio")
     (auto simp: videoSubmit_def isGenerateDisabled_def premium_has_enough panelReady_def)

lemma image_premium_state:
  "premiumOf (user w) \<Longrightarrow> snd (snd (imageSubmit a prompt loading gen fail w)) = w"
  by (cases gen) (auto simp: imageSubmit_def split: option.splits)

lemma video_premium_state:
  "premiumOf (user w) \<Longrightarrow> snd (snd (videoSubmit a p video audio fail w)) = w"
  by (cases "promise_all2 video audio") (auto simp: videoSubmit_def split: option.splits)

lemma image_paid:
  "user w = Some u \<Longrightarrow> \<not> premiumOf (user w) \<Longrightarrow> a \<le> coinsOrZero u \<Longrightarrow>
   \<not> blank prompt \<Longrightarrow> \<not> loading \<Longrightarrow>
   imageSubmit a prompt loading GenSuccess fail w =
     (GenerateCall # fst (debit a fail u w), snd (debit a fail u w))"
  by (simp add: imageSubmit_def hasEnoughCoins_def split: prod.splits)

lemma video_paid:
  "user w = Some u \<Longrightarrow> \<not> premiumOf (user w) \<Longrightarrow> a \<le> coinsOrZero u \<Longrightarrow>
   panelReady p \<Longrightarrow> promise_all2 video audio = GenSuccess \<Longrightarrow>
   videoSubmit a p video audio fail w =
     (GenerateCall # fst (debit a fail u w), snd (debit a fail u w))"
  by (auto simp: videoSubmit_def isGenerateDisabled_def hasEnoughCoins_def panelReady_def
        split: prod.splits)

lemma image_not_success:
  "gen \<noteq> GenSuccess \<Longrightarrow>
   snd (snd (imageSubmit a prompt loading gen fail w)) = w
   \<and> set (fst (imageSubmit a prompt loading gen fail w)) \<subseteq> {GenerateCall}"
  by (cases gen) (auto simp: imageSubmit_def split: option.splits)

lemma video_not_success:
  "promise_all2 video audio \<noteq> GenSuccess \<Longrightarrow>
   snd (snd (videoSubmit a p video audio fail w)) = w
   \<and> set (fst (videoSubmit a p video audio fail w)) \<subseteq> {GenerateCall}"
  by (cases "promise_all2 video audio") (auto simp: videoSubmit_def split: option.splits)

lemma debit_effects: "debit a fail u w = (evs, r, w') \<Longrightarrow> GenerateCall \<notin> set evs"
  by (auto simp: debit_def handleCoinsUpdate_def updateDoc_def Let_def
        split: option.splits prod.splits if_splits)

lemma image_effects_shape:
  "fst (imageSubmit a prompt loading gen fail w) = []
   \<or> (\<exists>rest. fst (imageSubmit a prompt loading gen fail w) = GenerateCall # rest
        \<and> GenerateCall \<notin> set rest \<and> (rest \<noteq> [] \<longrightarrow> gen = GenSuccess))"
  by (cases gen) (auto simp: imageSubmit_def dest: debit_effects split: option.splits prod.splits)

lemma video_effects_shape:
  "fst (videoSubmit a p video audio fail w) = []
   \<or> (\<exists>rest. fst (videoSubmit a p video audio fail w) = GenerateCall # rest
        \<and> GenerateCall \<notin> set rest
        \<and> (rest \<noteq> [] \<longrightarrow> promise_all2 video audio = GenSuccess))"
  by (cases "promise_all2 video audio")
     (auto simp: videoSubmit_def dest: debit_effects split: option.splits prod.splits)

lemma panelReady_isGenerateDisabled:
  "isGenerateDisabled cost p usr = (\<not> panelReady p \<or> usr = None \<or> \<not> hasEnoughCoins cost usr)"
  by (auto simp: isGenerateDisabled_def panelReady_def)

lemma promise_all2_success: "promise_all2 x y = GenSuccess \<longleftrightarrow> x = GenSuccess \<and> y = GenSuccess"
  by (cases x; cases y) simp_all

lemma debit_applied:
  assumes "user w = Some u" and "isGuest u \<or> (\<not> fail \<and> users w (uid u) \<noteq> None)"
  shows "\<exists>evs w' u'. debit a fail u w = (evs, Completed, w')
           \<and> user w' = Some u' \<and> coins u' = Some (coinsOrZero u - a)
           \<and> (isGuest u \<longrightarrow> guestProfile w' = Some u' \<and> users w' = users w)
           \<and> (\<not> isGuest u \<longrightarrow>
                (\<exists>d. users w (uid u) = Some d
                   \<and> users w' = (users w)(uid u \<mapsto> d\<lparr>doc_coins :=
                        Some ((case doc_coins d of None \<Rightarrow> 0 | Some c \<Rightarrow> c) - a)\<rparr>)))"
proof (cases "isGuest u")
  case True
  show ?thesis
    using True by (simp add: debit_guest [OF assms(1) True])
next
  case False
  with assms(2) obtain d where d: "users w (uid u) = Some d" and nf: "\<not> fail" by auto
  show ?thesis
    using False d by (simp add: debit_signed_in [OF assms(1) False nf d])
qed

text \<open>
  Claim C1. Let the current user have balance \<open>b\<close> (\<open>coins\<close>, or 0 when absent)
  and let the cost be \<open>a\<close>. For a user who is not premium: if \<open>a \<le> b\<close>, a ready
  panel whose generation succeeds, and whose remote decrement is accepted for a signed-in
  user, ends with balance \<open>b - a\<close> (for a guest also in the stored guest profile, for a
  signed-in user with the remote \<open>coins\<close> decremented by \<open>a\<close>); if \<open>a > b\<close>,
  no effect is issued, in particular no generation call, and the state is unchanged. For a
  premium user the state is unchanged whatever the balance, and a ready panel issues the
  generation call and nothing else.
\<close>

theorem debit_gate:
  assumes "user w = Some u"
  shows
   "(\<not> premiumOf (user w) \<and> a \<le> coinsOrZero u
       \<and> (isGuest u \<or> (\<not> fail \<and> users w (uid u) \<noteq> None)) \<longrightarrow>
       (\<exists>evs w' u'. debit a fail u w = (evs, Completed, w')
           \<and> user w' = Some u' \<and> coins u' = Some (coinsOrZero u - a)
           \<and> (isGuest u \<longrightarrow> guestProfile w' = Some u' \<and> users w' = users w)
           \<and> (\<not> isGuest u \<longrightarrow>
                (\<exists>d. users w (uid u) = Some d
                   \<and> users w' = (users w)(uid u \<mapsto> d\<lparr>doc_coins :=
                        Some ((case doc_coins d of None \<Rightarrow> 0 | Some c \<Rightarrow> c) - a)\<rparr>)))
           \<and> (\<not> blank prompt \<and> \<not> loading \<longrightarrow>
                imageSubmit a prompt loading GenSuccess fail w = (GenerateCall # evs, Completed, w'))
           \<and> (panelReady p \<longrightarrow>
                videoSubmit a p GenSuccess GenSuccess fail w = (GenerateCall # evs, Completed, w'))))
    \<and> (\<not> premiumOf (user w) \<and> coinsOrZero u < a \<longrightarrow>
         fst (imageSubmit a prompt loading gen fail w) = []
         \<and> snd (snd (imageSubmit a prompt loading gen fail w)) = w
         \<and> fst (videoSubmit a p video audio fail w) = []
         \<and> snd (snd (videoSubmit a p video audio fail w)) = w)
    \<and> (premiumOf (user w) \<longrightarrow>
         snd (snd (imageSubmit a prompt loading gen fail w)) = w
         \<and> snd (snd (videoSubmit a p video audio fail w)) = w
         \<and> (\<not> blank prompt \<and> \<not> loading \<longrightarrow>
              fst (imageSubmit a prompt loading gen fail w) = [GenerateCall])
         \<and> (panelReady p \<longrightarrow> fst (videoSubmit a p video audio fail w) = [GenerateCall]))"
proof (intro conjI impI)
  assume h: "\<not> premiumOf (user w) \<and> a \<le> coinsOrZero u
       \<and> (isGuest u \<or> (\<not> fail \<and> users w (uid u) \<noteq> None))"
  then have np: "\<not> premiumOf (user w)" and le: "a \<le> coinsOrZero u"
    and ok: "isGuest u \<or> (\<not> fail \<and> users w (uid u) \<noteq> None)" by simp_all
  from debit_applied [OF assms ok, of a] obtain evs w' u' where
    d: "debit a fail u w = (evs, Completed, w')"
    and rest: "user w' = Some u'" "coins u' = Some (coinsOrZero u - a)"
      "isGuest u \<longrightarrow> guestProfile w' = Some u' \<and> users w' = users w"
      "\<not> isGuest u \<longrightarrow>
                (\<exists>d. users w (uid u) = Some d
                   \<and> users w' = (users w)(uid u \<mapsto> d\<lparr>doc_coins :=
                        Some ((case doc_coins d of None \<Rightarrow> 0 | Some c \<Rightarrow> c) - a)\<rparr>))"
    by blast
  have img: "\<not> blank prompt \<and> \<not> loading \<longrightarrow>
      imageSubmit a prompt loading GenSuccess fail w = (GenerateCall # evs, Completed, w')"
    using image_paid [OF assms np le, of prompt loading fail] by (simp add: d)
  have vid: "panelReady p \<longrightarrow>
      videoSubmit a p GenSuccess GenSuccess fail w = (GenerateCall # evs, Completed, w')"
    using video_paid [OF assms np le, of p GenSuccess GenSuccess fail] by (simp add: d)
  show "\<exists>evs w' u'. debit a fail u w = (evs, Completed, w')
           \<and> user w' = Some u' \<and> coins u' = Some (coinsOrZero u - a)
           \<and> (isGuest u \<longrightarrow> guestProfile w' = Some u' \<and> users w' = users w)
           \<and> (\<not> isGuest u \<longrightarrow>
                (\<exists>d. users w (uid u) = Some d
                   \<and> users w' = (users w)(uid u \<mapsto> d\<lparr>doc_coins :=
                        Some ((case doc_coins d of None \<Rightarrow> 0 | Some c \<Rightarrow> c) - a)\<rparr>)))
           \<and> (\<not> blank prompt \<and> \<not> loading \<longrightarrow>
                imageSubmit a prompt loading GenSuccess fail w = (GenerateCall # evs, Completed, w'))
           \<and> (panelReady p \<longrightarrow>
                videoSubmit a p GenSuccess GenSuccess fail w = (GenerateCall # evs, Completed, w'))"
    using d rest img vid by blast
next
  assume h: "\<not> premiumOf (user w) \<and> coinsOrZero u < a"
  then have np: "\<not> premiumOf (user w)" and lt: "coinsOrZero u < a" by simp_all
  show "fst (imageSubmit a prompt loading gen fail w) = []"
    by (simp add: image_rejected [OF assms np lt])
  show "snd (snd (imageSubmit a prompt loading gen fail w)) = w"
    by (simp add: image_rejected [OF assms np lt])
  show "fst (videoSubmit a p video audio fail w) = []"
    by (simp add: video_rejected [OF assms np lt])
  show "snd (snd (videoSubmit a p video audio fail w)) = w"
    by (simp add: video_rejected [OF assms np lt])
next
  assume pr: "premiumOf (user w)"
  show "snd (snd (imageSubmit a prompt loading gen fail w)) = w"
    by (rule image_premium_state [OF pr])
  show "snd (snd (videoSubmit a p video audio fail w)) = w"
    by (rule video_premium_state [OF pr])
  show "fst (imageSubmit a prompt loading gen fail w) = [GenerateCall]"
    if "\<not> blank prompt \<and> \<not> loading"
    using that by (simp add: image_premium [OF assms pr])
  show "fst (videoSubmit a p video audio fail w) = [GenerateCall]" if "panelReady p"
    by (simp add: video_premium [OF assms pr that])
qed

theorem debit_gate_witness:
  "(user (guest_state 10) = Some (guest_with 10) \<and> \<not> premiumOf (user (guest_state 10))
      \<and> IMAGE_COST \<le> coinsOrZero (guest_with 10) \<and> isGuest (guest_with 10)
      \<and> \<not> blank ''a cat''
      \<and> (\<exists>evs w' u'.
            ImageGenerator_handleSubmit ''a cat'' False GenSuccess False (guest_state 10)
              = (GenerateCall # evs, Completed, w')
            \<and> user w' = Some u' \<and> coins u' = Some 5 \<and> guestProfile w' = Some u'))
   \<and> (coinsOrZero (guest_with 3) < IMAGE_COST
      \<and> fst (ImageGenerator_handleSubmit ''a cat'' False GenSuccess False (guest_state 3)) = []
      \<and> snd (snd (ImageGenerator_handleSubmit ''a cat'' False GenSuccess False (guest_state 3)))
           = guest_state 3)
   \<and> (premiumOf (user premium_session) \<and> panelReady ready_panel
      \<and> fst (VideoGenerator_handleSubmit ready_panel GenSuccess GenSuccess False premium_session)
           = [GenerateCall]
      \<and> snd (snd (VideoGenerator_handleSubmit ready_panel GenSuccess GenSuccess False
                     premium_session)) = premium_session)"
proof -
  have a: "user (guest_state 10) = Some (guest_with 10)"
    and b: "user (guest_state 3) = Some (guest_with 3)"
    and c: "user premium_session = Some (member\<lparr>isPremium := Some True, coins := None\<rparr>)"
    by (simp_all add: guest_state_def premium_session_def)
  have h1: "\<not> premiumOf (user (guest_state 10)) \<and> IMAGE_COST \<le> coinsOrZero (guest_with 10)
      \<and> isGuest (guest_with 10) \<and> \<not> blank ''a cat''"
    by (simp add: guest_state_def guest_with_def premiumOf_def coinsOrZero_def IMAGE_COST_def
          blank_def js_whitespace_def)
  have h2: "\<not> premiumOf (user (guest_state 3)) \<and> coinsOrZero (guest_with 3) < IMAGE_COST"
    by (simp add: guest_state_def guest_with_def premiumOf_def coinsOrZero_def IMAGE_COST_def)
  have h3: "premiumOf (user premium_session) \<and> panelReady ready_panel"
    by (simp add: premium_session_def member_def premiumOf_def panelReady_def ready_panel_def
          blank_def js_whitespace_def)
  have five: "coinsOrZero (guest_with 10) - IMAGE_COST = 5"
    by (simp add: guest_with_def coinsOrZero_def IMAGE_COST_def)
  from debit_gate [OF a, of IMAGE_COST False "''a cat''" False ready_panel GenSuccess GenSuccess GenSuccess]
    h1
  have p1: "\<exists>evs w' u'.
            ImageGenerator_handleSubmit ''a cat'' False GenSuccess False (guest_state 10)
              = (GenerateCall # evs, Completed, w')
            \<and> user w' = Some u' \<and> coins u' = Some 5 \<and> guestProfile w' = Some u'"
    unfolding ImageGenerator_handleSubmit_def five by blast
  from debit_gate [OF b, of IMAGE_COST False "''a cat''" False ready_panel GenSuccess GenSuccess GenSuccess]
    h2
  have p2: "fst (ImageGenerator_handleSubmit ''a cat'' False GenSuccess False (guest_state 3)) = []
      \<and> snd (snd (ImageGenerator_handleSubmit ''a cat'' False GenSuccess False (guest_state 3)))
           = guest_state 3"
    unfolding ImageGenerator_handleSubmit_def by blast
  from debit_gate [OF c, of VIDEO_COST False "''a cat''" False ready_panel GenSuccess GenSuccess GenSuccess]
    h3
  have p3: "fst (VideoGenerator_handleSubmit ready_panel GenSuccess GenSuccess False premium_session)
           = [GenerateCall]
      \<and> snd (snd (VideoGenerator_handleSubmit ready_panel GenSuccess GenSuccess False
                     premium_session)) = premium_session"
    unfolding VideoGenerator_handleSubmit_def by blast
  show ?thesis
    using a h1 h2 h3 p1 p2 p3 by blast
qed

text \<open>
  Claim C2. In both panels, a generation that does not succeed (for video: the video or
  the audio promise) leaves the whole state unchanged, current user, stored guest profile
  and remote collection, and the only effect issued is the generation call. In every run
  the effects are either none, or the generation call followed by effects that occur only
  when the generation succeeded: the debit comes after the successful call.
\<close>

theorem debit_only_after_success:
  "(gen \<noteq> GenSuccess \<longrightarrow>
      snd (snd (imageSubmit a prompt loading gen fail w)) = w
      \<and> set (fst (imageSubmit a prompt loading gen fail w)) \<subseteq> {GenerateCall})
   \<and> (video \<noteq> GenSuccess \<or> audio \<noteq> GenSuccess \<longrightarrow>
      snd (snd (videoSubmit a p video audio fail w)) = w
      \<and> set (fst (videoSubmit a p video audio fail w)) \<subseteq> {GenerateCall})
   \<and> (fst (imageSubmit a prompt loading gen fail w) = []
      \<or> (\<exists>rest. fst (imageSubmit a prompt loading gen fail w) = GenerateCall # rest
            \<and> GenerateCall \<notin> set rest \<and> (rest \<noteq> [] \<longrightarrow> gen = GenSuccess)))
   \<and> (fst (videoSubmit a p video audio fail w) = []
      \<or> (\<exists>rest. fst (videoSubmit a p video audio fail w) = GenerateCall # rest
            \<and> GenerateCall \<notin> set rest
            \<and> (rest \<noteq> [] \<longrightarrow> video = GenSuccess \<and> audio = GenSuccess)))"
proof (intro conjI)
  show "gen \<noteq> GenSuccess \<longrightarrow>
      snd (snd (imageSubmit a prompt loading gen fail w)) = w
      \<and> set (fst (imageSubmit a prompt loading gen fail w)) \<subseteq> {GenerateCall}"
    using image_not_success by blast
  show "video \<noteq> GenSuccess \<or> audio \<noteq> GenSuccess \<longrightarrow>
      snd (snd (videoSubmit a p video audio fail w)) = w
      \<and> set (fst (videoSubmit a p video audio fail w)) \<subseteq> {GenerateCall}"
    using video_not_success [of video audio a p fail w]
    by (simp only: promise_all2_success) blast
  show "fst (imageSubmit a prompt loading gen fail w) = []
      \<or> (\<exists>rest. fst (imageSubmit a prompt loading gen fail w) = GenerateCall # rest
            \<and> GenerateCall \<notin> set rest \<and> (rest \<noteq> [] \<longrightarrow> gen = GenSuccess))"
    by (rule image_effects_shape)
  show "fst (videoSubmit a p video audio fail w) = []
      \<or> (\<exists>rest. fst (videoSubmit a p video audio fail w) = GenerateCall # rest
            \<and> GenerateCall \<notin> set rest
            \<and> (rest \<noteq> [] \<longrightarrow> video = GenSuccess \<and> audio = GenSuccess))"
    using video_effects_shape [of a p video audio fail w]
    by (simp only: promise_all2_success)
qed

theorem debit_only_after_success_witness:
  "GenFailure \<noteq> GenSuccess
   \<and> snd (snd (ImageGenerator_handleSubmit ''a cat'' False GenFailure False member_session))
       = member_session
   \<and> fst (ImageGenerator_handleSubmit ''a cat'' False GenFailure False member_session)
       = [GenerateCall]
   \<and> snd (snd (VideoGenerator_handleSubmit ready_panel GenSuccess GenFailure False member_session))
       = member_session
   \<and> users (snd (snd (VideoGenerator_handleSubmit ready_panel GenSuccess GenSuccess False
                         member_session))) ''u1''
       = Some (member_doc\<lparr>doc_coins := Some 20\<rparr>)"
proof -
  have e1: "fst (ImageGenerator_handleSubmit ''a cat'' False GenFailure False member_session)
       = [GenerateCall]"
    by (simp add: ImageGenerator_handleSubmit_def imageSubmit_def member_session_def member_def
          hasEnoughCoins_def premiumOf_def coinsOrZero_def IMAGE_COST_def blank_def
          js_whitespace_def)
  have e2: "users (snd (snd (VideoGenerator_handleSubmit ready_panel GenSuccess GenSuccess False
                         member_session))) ''u1''
       = Some (member_doc\<lparr>doc_coins := Some 20\<rparr>)"
    by (simp add: VideoGenerator_handleSubmit_def videoSubmit_def member_session_def member_def
          member_doc_def hasEnoughCoins_def premiumOf_def coinsOrZero_def VIDEO_COST_def
          blank_def js_whitespace_def isGenerateDisabled_def ready_panel_def debit_def
          updateDoc_def handleCoinsUpdate_def Let_def)
  from debit_only_after_success
         [of GenFailure IMAGE_COST "''a cat''" False False member_session GenSuccess GenFailure]
  have i: "snd (snd (ImageGenerator_handleSubmit ''a cat'' False GenFailure False member_session))
       = member_session"
    unfolding ImageGenerator_handleSubmit_def by simp
  from debit_only_after_success
         [of GenFailure VIDEO_COST "''a cat''" False False member_session GenSuccess GenFailure
             ready_panel]
  have v: "snd (snd (VideoGenerator_handleSubmit ready_panel GenSuccess GenFailure False
                       member_session)) = member_session"
    unfolding VideoGenerator_handleSubmit_def by simp
  show ?thesis
    using e1 e2 i v by simp
qed

section \<open>Properties of the premium unlock\<close>

lemma premium_unlocked_guest:
  "user w = Some u \<Longrightarrow> isGuest u \<Longrightarrow>
   handlePremiumUnlocked fail w =
     ([SetUser (u\<lparr>isPremium := Some True\<rparr>), StorageSet (u\<lparr>isPremium := Some True\<rparr>)], None,
      w\<lparr>user := Some (u\<lparr>isPremium := Some True\<rparr>),
        guestProfile := Some (u\<lparr>isPremium := Some True\<rparr>)\<rparr>)"
  by (simp add: handlePremiumUnlocked_def Let_def)

lemma premium_unlocked_member:
  "user w = Some u \<Longrightarrow> \<not> isGuest u \<Longrightarrow>
   handlePremiumUnlocked fail w =
     ([SetUser (u\<lparr>isPremium := Some True, coins := None\<rparr>),
       DocUpdate (uid u) [SetIsPremium True]],
      (if fail \<or> users w (uid u) = None then Some RemoteError else None),
      w\<lparr>user := Some (u\<lparr>isPremium := Some True, coins := None\<rparr>),
        users := (if fail then users w
                  else case users w (uid u) of
                         None \<Rightarrow> users w
                       | Some d \<Rightarrow> (users w)(uid u \<mapsto> d\<lparr>doc_isPremium := Some True\<rparr>))\<rparr>)"
  by (cases "users w (uid u)") (simp_all add: handlePremiumUnlocked_def updateDoc_def Let_def)

lemma premium_unlocked_flag:
  "user w = Some u \<Longrightarrow>
   \<exists>u'. user (snd (snd (handlePremiumUnlocked fail w))) = Some u' \<and> isPremium u' = Some True"
  by (cases "isGuest u") (simp_all add: premium_unlocked_guest premium_unlocked_member)

lemma unlockPremium_when_premium:
  "user w = Some u \<Longrightarrow> isPremium u = Some True \<Longrightarrow> unlockPremium fail plan w = ([], None, w)"
  by (simp add: unlockPremium_def handleChoosePlan_def isPremiumSet_def)

lemma unlockPremium_when_not:
  "user w = Some u \<Longrightarrow> isPremium u \<noteq> Some True \<Longrightarrow>
   unlockPremium fail plan w = handlePremiumUnlocked fail w"
  by (simp add: unlockPremium_def handleChoosePlan_def isPremiumSet_def)

lemma unlockPremium_sets_flag:
  "user w = Some u \<Longrightarrow>
   \<exists>u'. user (snd (snd (unlockPremium fail plan w))) = Some u' \<and> isPremium u' = Some True"
  by (cases "isPremium u = Some True")
     (simp_all add: unlockPremium_when_premium unlockPremium_when_not premium_unlocked_flag)

lemma unlockPremium_no_user:
  "user w = None \<Longrightarrow> unlockPremium fail plan w = ([], None, w)"
  by (simp add: unlockPremium_def)

lemma handlePremiumUnlocked_repeat:
  "\<not> f1 \<Longrightarrow>
   snd (snd (handlePremiumUnlocked f2 (snd (snd (handlePremiumUnlocked f1 w)))))
     = snd (snd (handlePremiumUnlocked f1 w))"
proof (cases "user w")
  case None
  then show ?thesis by (simp add: handlePremiumUnlocked_def)
next
  case (Some u)
  assume nf: "\<not> f1"
  show ?thesis
  proof (cases "isGuest u")
    case True
    have u1: "user (w\<lparr>user := Some (u\<lparr>isPremium := Some True\<rparr>),
                     guestProfile := Some (u\<lparr>isPremium := Some True\<rparr>)\<rparr>)
              = Some (u\<lparr>isPremium := Some True\<rparr>)" by simp
    have g1: "isGuest (u\<lparr>isPremium := Some True\<rparr>)" using True by simp
    show ?thesis
      by (simp add: premium_unlocked_guest [OF Some True] premium_unlocked_guest [OF u1 g1])
  next
    case False
    let ?u1 = "u\<lparr>isPremium := Some True, coins := None\<rparr>"
    let ?w1 = "snd (snd (handlePremiumUnlocked f1 w))"
    have w1: "user ?w1 = Some ?u1"
      by (simp add: premium_unlocked_member [OF Some False])
    have g1: "\<not> isGuest ?u1" using False by simp
    show ?thesis
      using nf
      by (cases "users w (uid u)")
         (simp_all add: premium_unlocked_member [OF Some False],
          simp_all add: handlePremiumUnlocked_def updateDoc_def Let_def False)
  qed
qed

text \<open>
  Claim C8. One pass of the unlock flow leaves a current user premium; a second pass,
  whatever plan is chosen and whether or not the store is reachable, issues no effect and
  leaves the state as it is; for a user who is premium already the flow is a no-op. For a
  guest the flag is set in memory and in local storage, the coin balance is kept and the
  remote collection is not touched. Repeating \<open>handlePremiumUnlocked\<close> itself after
  a call whose remote write was not cut off does not change the state either.
\<close>

theorem unlockPremium_idempotent:
  "(\<forall>u. user w = Some u \<longrightarrow>
      (\<exists>u'. user (snd (snd (unlockPremium f1 p1 w))) = Some u' \<and> isPremium u' = Some True))
   \<and> unlockPremium f2 p2 (snd (snd (unlockPremium f1 p1 w)))
        = ([], None, snd (snd (unlockPremium f1 p1 w)))
   \<and> (\<forall>u. user w = Some u \<and> isPremium u = Some True \<longrightarrow> unlockPremium f1 p1 w = ([], None, w))
   \<and> (\<forall>u. user w = Some u \<and> isGuest u \<and> isPremium u \<noteq> Some True \<longrightarrow>
        unlockPremium f1 p1 w =
          ([SetUser (u\<lparr>isPremium := Some True\<rparr>), StorageSet (u\<lparr>isPremium := Some True\<rparr>)], None,
           w\<lparr>user := Some (u\<lparr>isPremium := Some True\<rparr>),
             guestProfile := Some (u\<lparr>isPremium := Some True\<rparr>)\<rparr>)
        \<and> coins (u\<lparr>isPremium := Some True\<rparr>) = coins u
        \<and> users (snd (snd (unlockPremium f1 p1 w))) = users w)
   \<and> (\<not> f1 \<longrightarrow>
        snd (snd (handlePremiumUnlocked f2 (snd (snd (handlePremiumUnlocked f1 w)))))
          = snd (snd (handlePremiumUnlocked f1 w)))"
proof (intro conjI allI impI)
  fix u assume "user w = Some u"
  then show "\<exists>u'. user (snd (snd (unlockPremium f1 p1 w))) = Some u' \<and> isPremium u' = Some True"
    by (rule unlockPremium_sets_flag)
next
  assume "\<not> f1"
  then show "snd (snd (handlePremiumUnlocked f2 (snd (snd (handlePremiumUnlocked f1 w)))))
          = snd (snd (handlePremiumUnlocked f1 w))"
    by (rule handlePremiumUnlocked_repeat)
next
  show "unlockPremium f2 p2 (snd (snd (unlockPremium f1 p1 w)))
        = ([], None, snd (snd (unlockPremium f1 p1 w)))"
  proof (cases "user w")
    case None
    then show ?thesis by (simp add: unlockPremium_no_user)
  next
    case (Some u)
    from unlockPremium_sets_flag [OF Some, of f1 p1] obtain u' where
      "user (snd (snd (unlockPremium f1 p1 w))) = Some u'" "isPremium u' = Some True" by blast
    then show ?thesis by (rule unlockPremium_when_premium)
  qed
next
  fix u assume "user w = Some u \<and> isPremium u = Some True"
  then show "unlockPremium f1 p1 w = ([], None, w)"
    by (simp add: unlockPremium_when_premium)
next
  fix u assume h: "user w = Some u \<and> isGuest u \<and> isPremium u \<noteq> Some True"
  then have eq: "unlockPremium f1 p1 w = handlePremiumUnlocked f1 w"
    by (simp add: unlockPremium_when_not)
  show "unlockPremium f1 p1 w =
          ([SetUser (u\<lparr>isPremium := Some True\<rparr>), StorageSet (u\<lparr>isPremium := Some True\<rparr>)], None,
           w\<lparr>user := Some (u\<lparr>isPremium := Some True\<rparr>),
             guestProfile := Some (u\<lparr>isPremium := Some True\<rparr>)\<rparr>)"
    using h by (simp add: eq premium_unlocked_guest)
  show "coins (u\<lparr>isPremium := Some True\<rparr>) = coins u" by simp
  show "users (snd (snd (unlockPremium f1 p1 w))) = users w"
    using h by (simp add: eq premium_unlocked_guest)
qed

theorem unlockPremium_idempotent_witness:
  "user guest_session = Some (guest_with 7) \<and> isGuest (guest_with 7)
   \<and> isPremium (guest_with 7) \<noteq> Some True
   \<and> user (snd (snd (unlockPremium False monthly guest_session)))
       = Some ((guest_with 7)\<lparr>isPremium := Some True\<rparr>)
   \<and> coins ((guest_with 7)\<lparr>isPremium := Some True\<rparr>) = Some 7
   \<and> unlockPremium True monthly (snd (snd (unlockPremium False monthly guest_session)))
       = ([], None, snd (snd (unlockPremium False monthly guest_session)))"
  using unlockPremium_idempotent [of guest_session False monthly True monthly]
  by (simp add: guest_session_def guest_with_def) (elim conjE exE, simp)

text \<open>
  Claim C10. \<open>handlePremiumUnlocked\<close> for a signed-in user sets the profile premium
  with \<open>coins\<close> undefined and issues one remote update, of \<open>isPremium\<close> only:
  every document keeps its \<open>coins\<close> value, and the user's document changes in
  \<open>isPremium\<close> alone. For a guest the \<open>coins\<close> field is kept and the remote
  collection is unchanged.
\<close>

theorem premium_unlock_clears_member_coins:
  assumes "user w = Some u"
  shows
   "(\<not> isGuest u \<longrightarrow>
       fst (handlePremiumUnlocked fail w)
         = [SetUser (u\<lparr>isPremium := Some True, coins := None\<rparr>),
            DocUpdate (uid u) [SetIsPremium True]]
       \<and> user (snd (snd (handlePremiumUnlocked fail w)))
           = Some (u\<lparr>isPremium := Some True, coins := None\<rparr>)
       \<and> (\<forall>k d. users w k = Some d \<longrightarrow>
             (\<exists>d'. users (snd (snd (handlePremiumUnlocked fail w))) k = Some d'
                  \<and> doc_coins d' = doc_coins d
                  \<and> (d' = d \<or> (k = uid u \<and> \<not> fail \<and> d' = d\<lparr>doc_isPremium := Some True\<rparr>))))
       \<and> (\<forall>d. users w (uid u) = Some d \<and> \<not> fail \<longrightarrow>
             users (snd (snd (handlePremiumUnlocked fail w))) (uid u)
               = Some (d\<lparr>doc_isPremium := Some True\<rparr>)))
    \<and> (isGuest u \<longrightarrow>
         user (snd (snd (handlePremiumUnlocked fail w))) = Some (u\<lparr>isPremium := Some True\<rparr>)
         \<and> coins (u\<lparr>isPremium := Some True\<rparr>) = coins u
         \<and> users (snd (snd (handlePremiumUnlocked fail w))) = users w)"
proof (cases "isGuest u")
  case True
  then show ?thesis by (simp add: premium_unlocked_guest [OF assms True])
next
  case False
  then show ?thesis
    by (auto simp: premium_unlocked_member [OF assms False] split: option.splits)
qed

theorem premium_unlock_clears_member_coins_witness:
  "user member_session = Some member \<and> \<not> isGuest member \<and> coins member = Some 40
   \<and> users member_session ''u1'' = Some member_doc
   \<and> (\<exists>u'. user (snd (snd (handlePremiumUnlocked False member_session))) = Some u'
          \<and> coins u' = None \<and> isPremium u' = Some True)
   \<and> (\<exists>d'. users (snd (snd (handlePremiumUnlocked False member_session))) ''u1'' = Some d'
          \<and> doc_coins d' = Some 40 \<and> doc_isPremium d' = Some True)"
  using premium_unlock_clears_member_coins [of member_session member False]
  by (simp add: member_session_def member_def member_doc_def)

end
